theory Spec2Isabelle
  imports Complex_Main
begin

section \<open>Key slot allocation: tier strategy, slot table and handover pool\<close>

text \<open>
  A shallow embedding of \<^verbatim>\<open>slot_assignment_strategy.py\<close> and \<^verbatim>\<open>key_slot_manager.py\<close>.
  Every method of \<^verbatim>\<open>KeySlotManager\<close> that mutates the object takes the manager and
  returns its result together with the new manager. \<^verbatim>\<open>print\<close> calls are not part of
  the state and are left out. The clock (\<^verbatim>\<open>datetime.now()\<close>) is an input of each
  operation that stores a timestamp, and the case mapping of the Python runtime
  (\<^verbatim>\<open>str.upper()\<close>) is an input \<open>up\<close> of each operation that normalises a license plate.
\<close>

subsection \<open>Prices\<close>

text \<open>
  Prices are Python floats (the callers produce them with \<^verbatim>\<open>float(...)\<close>, which also
  yields infinities and NaN). Only comparisons are ever applied to them, and comparisons of
  floats are exact, so a finite float is modelled by the real number it denotes.
  \<open>float_ge a b\<close> is Python's \<^verbatim>\<open>a >= b\<close>, \<open>float_lt a b\<close> is \<^verbatim>\<open>a < b\<close>; both are
  false as soon as one side is NaN.
\<close>

datatype pyfloat = Finite real | PosInf | NegInf | NaN

fun float_ge :: "pyfloat \<Rightarrow> pyfloat \<Rightarrow> bool" where
  "float_ge NaN _ = False"
| "float_ge _ NaN = False"
| "float_ge PosInf _ = True"
| "float_ge _ NegInf = True"
| "float_ge NegInf _ = False"
| "float_ge _ PosInf = False"
| "float_ge (Finite a) (Finite b) = (b \<le> a)"

fun float_lt :: "pyfloat \<Rightarrow> pyfloat \<Rightarrow> bool" where
  "float_lt NaN _ = False"
| "float_lt _ NaN = False"
| "float_lt PosInf _ = False"
| "float_lt _ NegInf = False"
| "float_lt NegInf _ = True"
| "float_lt _ PosInf = True"
| "float_lt (Finite a) (Finite b) = (a < b)"

subsection \<open>PriceBasedSlotStrategy\<close>

record price_based_slot_strategy =
  high_price_threshold :: pyfloat
  medium_price_threshold :: pyfloat
  high_price_slots :: "int \<times> int"
  medium_price_slots :: "int \<times> int"
  low_price_slots :: "int \<times> int"

text \<open>\<^verbatim>\<open>PriceBasedSlotStrategy()\<close>: the constructor's default arguments.\<close>

definition default_strategy :: price_based_slot_strategy where
  "default_strategy =
     \<lparr>high_price_threshold = Finite 3000,
      medium_price_threshold = Finite 1500,
      high_price_slots = (0, 50),
      medium_price_slots = (50, 100),
      low_price_slots = (100, 199)\<rparr>"

definition get_slot_range :: "price_based_slot_strategy \<Rightarrow> pyfloat \<Rightarrow> int \<times> int" where
  "get_slot_range self purchase_price =
     (if float_ge purchase_price (high_price_threshold self) then high_price_slots self
      else if float_ge purchase_price (medium_price_threshold self) then medium_price_slots self
      else low_price_slots self)"

subsection \<open>Records of the manager\<close>

text \<open>
  \<^verbatim>\<open>vehicle_data\<close> and \<^verbatim>\<open>buyer_info\<close> are opaque dictionaries that the manager stores
  and never inspects. Timestamps are abstract clock readings.
\<close>

type_synonym py_dict = "(string \<times> string) list"
type_synonym datetime = nat

record slot_assignment =
  slot_number :: int
  vehicle_id :: string
  license_plate :: string
  purchase_price :: pyfloat
  assigned_at :: datetime
  vehicle_data :: "py_dict option"

record sold_vehicle =
  sold_slot :: string
  vehicle_id :: string
  license_plate :: string
  purchase_price :: pyfloat
  original_slot :: int
  sold_at :: datetime
  sold_price :: "pyfloat option"
  buyer_info :: "py_dict option"

text \<open>
  The manager. \<^verbatim>\<open>slots\<close> is a dict that \<^verbatim>\<open>__init__\<close> fills with the keys
  \<open>0 .. total_slots - 1\<close> in ascending order, each bound to \<^verbatim>\<open>None\<close>; no method adds or
  removes a key, and every read by key is guarded by the range test
  \<open>0 \<le> k < total_slots\<close>. It is modelled as a map from the key to the stored assignment,
  \<open>None\<close> standing for Python's \<^verbatim>\<open>None\<close>; \<^verbatim>\<open>slots.values()\<close>, which iterates in insertion
  order, is \<open>slot_values\<close>. The strategy is an object with one method
  \<^verbatim>\<open>get_slot_range\<close>, modelled by that method as a function. The attribute
  \<^verbatim>\<open>_license_plate_index\<close> is created empty and never read or written again; it is left out.
\<close>

record key_slot_manager =
  total_slots :: int
  assignment_strategy :: "(pyfloat \<Rightarrow> int \<times> int) option"
  slots :: "int \<Rightarrow> slot_assignment option"
  sold_vehicles :: "sold_vehicle option list"

definition SOLD_VEHICLE_SLOTS :: nat where
  "SOLD_VEHICLE_SLOTS = 10"

definition init :: "int \<Rightarrow> (pyfloat \<Rightarrow> int \<times> int) option \<Rightarrow> key_slot_manager" where
  "init n strategy =
     \<lparr>total_slots = n,
      assignment_strategy = strategy,
      slots = (\<lambda>_. None),
      sold_vehicles = replicate SOLD_VEHICLE_SLOTS None\<rparr>"

definition slot_values :: "key_slot_manager \<Rightarrow> slot_assignment option list" where
  "slot_values self = map (slots self) [0 .. total_slots self - 1]"

subsection \<open>License plate normalisation\<close>

text \<open>
  \<^verbatim>\<open>license_plate.upper().replace(" ", "").replace("-", "")\<close>. A Python string is
  modelled by its UTF-8 bytes. \<^verbatim>\<open>str.upper()\<close> is the case mapping of the Python
  runtime, which is not part of the repository (it maps e-acute to E-acute and sharp s to
  \<^verbatim>\<open>SS\<close>); it is the parameter \<open>up\<close> of the normalisation and of every operation that
  normalises a plate, and nothing is assumed about it. Removing every space and every hyphen
  is exact on the bytes, since the bytes of these two characters occur nowhere else in UTF-8.
\<close>

definition normalize_license_plate :: "(string \<Rightarrow> string) \<Rightarrow> string \<Rightarrow> string" where
  "normalize_license_plate up plate =
     filter (\<lambda>c. c \<noteq> CHR ''-'') (filter (\<lambda>c. c \<noteq> CHR '' '') (up plate))"

text \<open>
  \<open>ascii_upper\<close> is \<^verbatim>\<open>str.upper()\<close> on strings of ASCII characters: it raises the letters
  \<^verbatim>\<open>a\<close> to \<^verbatim>\<open>z\<close> and keeps every other character. The examples, whose plates are
  ASCII, are evaluated with it.
\<close>

definition upper_char :: "char \<Rightarrow> char" where
  "upper_char c =
     (let n = (of_char c :: nat) in if 97 \<le> n \<and> n \<le> 122 then char_of (n - 32) else c)"

definition ascii_upper :: "string \<Rightarrow> string" where
  "ascii_upper plate = map upper_char plate"

subsection \<open>Queries\<close>

definition assignment_matches :: "(string \<Rightarrow> string) \<Rightarrow> string \<Rightarrow> slot_assignment option \<Rightarrow> bool" where
  "assignment_matches up normalized v =
     (case v of None \<Rightarrow> False
      | Some assignment \<Rightarrow>
          normalize_license_plate up (slot_assignment.license_plate assignment) = normalized)"

definition sold_matches :: "(string \<Rightarrow> string) \<Rightarrow> string \<Rightarrow> sold_vehicle option \<Rightarrow> bool" where
  "sold_matches up normalized v =
     (case v of None \<Rightarrow> False
      | Some sold \<Rightarrow> normalize_license_plate up (sold_vehicle.license_plate sold) = normalized)"

definition is_duplicate_license_plate :: "(string \<Rightarrow> string) \<Rightarrow> key_slot_manager \<Rightarrow> string \<Rightarrow> bool" where
  "is_duplicate_license_plate up self plate =
     (let normalized = normalize_license_plate up plate in
      if list_ex (assignment_matches up normalized) (slot_values self) then True
      else if list_ex (sold_matches up normalized) (sold_vehicles self) then True
      else False)"

definition is_slot_available :: "key_slot_manager \<Rightarrow> int \<Rightarrow> bool" where
  "is_slot_available self slot =
     (if \<not> (0 \<le> slot \<and> slot < total_slots self) then False
      else slots self slot = None)"

text \<open>\<^verbatim>\<open>range(min_slot, min(max_slot + 1, total_slots))\<close>, scanned ascending.\<close>

definition get_available_slot_in_range :: "key_slot_manager \<Rightarrow> int \<Rightarrow> int \<Rightarrow> int option" where
  "get_available_slot_in_range self min_slot max_slot =
     find (is_slot_available self) [min_slot .. min (max_slot + 1) (total_slots self) - 1]"

text \<open>\<^verbatim>\<open>range(total_slots - 1, -1, -1)\<close>, scanned descending.\<close>

definition get_highest_available_slot :: "key_slot_manager \<Rightarrow> int option" where
  "get_highest_available_slot self =
     find (is_slot_available self) (rev [0 .. total_slots self - 1])"

definition get_vehicle_by_license_plate ::
    "(string \<Rightarrow> string) \<Rightarrow> key_slot_manager \<Rightarrow> string \<Rightarrow> slot_assignment option" where
  "get_vehicle_by_license_plate up self plate =
     (case find (assignment_matches up (normalize_license_plate up plate)) (slot_values self) of
        None \<Rightarrow> None
      | Some v \<Rightarrow> v)"

definition get_sold_vehicles :: "key_slot_manager \<Rightarrow> sold_vehicle list" where
  "get_sold_vehicles self = [v. Some v \<leftarrow> sold_vehicles self]"

subsection \<open>Assignment\<close>

definition assign_vehicle_to_slot ::
    "(string \<Rightarrow> string) \<Rightarrow>
      key_slot_manager \<Rightarrow> datetime \<Rightarrow> int \<Rightarrow> string \<Rightarrow> string \<Rightarrow> pyfloat \<Rightarrow> py_dict option \<Rightarrow> bool
      \<Rightarrow> bool \<times> key_slot_manager" where
  "assign_vehicle_to_slot up self now slot vid plate price data check_duplicate =
     (if \<not> is_slot_available self slot then (False, self)
      else if check_duplicate \<and> is_duplicate_license_plate up self plate then (False, self)
      else
        (True,
         self\<lparr>slots := (slots self)(slot \<mapsto>
           \<lparr>slot_number = slot,
            slot_assignment.vehicle_id = vid,
            slot_assignment.license_plate = plate,
            slot_assignment.purchase_price = price,
            assigned_at = now,
            vehicle_data = data\<rparr>)\<rparr>))"

text \<open>
  The loop of the branch without a strategy: \<^verbatim>\<open>for slot in range(total_slots)\<close>, which
  returns at the first slot where the placement succeeds and goes on otherwise.
\<close>

fun assign_first_available ::
    "(string \<Rightarrow> string) \<Rightarrow>
      int list \<Rightarrow> key_slot_manager \<Rightarrow> datetime \<Rightarrow> string \<Rightarrow> string \<Rightarrow> pyfloat \<Rightarrow> py_dict option
      \<Rightarrow> int option \<times> key_slot_manager" where
  "assign_first_available up [] self now vid plate price data = (None, self)"
| "assign_first_available up (slot # rest) self now vid plate price data =
     (if is_slot_available self slot then
        (let (placed, self') = assign_vehicle_to_slot up self now slot vid plate price data False
         in if placed then (Some slot, self')
            else assign_first_available up rest self' now vid plate price data)
      else assign_first_available up rest self now vid plate price data)"

definition assign_vehicle ::
    "(string \<Rightarrow> string) \<Rightarrow>
      key_slot_manager \<Rightarrow> datetime \<Rightarrow> string \<Rightarrow> string \<Rightarrow> pyfloat \<Rightarrow> py_dict option
      \<Rightarrow> int option \<times> key_slot_manager" where
  "assign_vehicle up self now vid plate price data =
     (if is_duplicate_license_plate up self plate then (None, self)
      else case assignment_strategy self of
        None \<Rightarrow> assign_first_available up [0 .. total_slots self - 1] self now vid plate price data
      | Some strategy \<Rightarrow>
          (let (min_slot, max_slot) = strategy price;
               available_slot = get_available_slot_in_range self min_slot max_slot;
               (placed, self1) =
                 (case available_slot of
                    None \<Rightarrow> (False, self)
                  | Some a \<Rightarrow> assign_vehicle_to_slot up self now a vid plate price data False)
           in if placed then (available_slot, self1)
              else
                (let highest_slot = get_highest_available_slot self1;
                     (placed2, self2) =
                       (case highest_slot of
                          None \<Rightarrow> (False, self1)
                        | Some h \<Rightarrow> assign_vehicle_to_slot up self1 now h vid plate price data False)
                 in if placed2 then (highest_slot, self2) else (None, self2))))"

definition add_vehicle_manually ::
    "(string \<Rightarrow> string) \<Rightarrow>
      key_slot_manager \<Rightarrow> datetime \<Rightarrow> string \<Rightarrow> pyfloat \<Rightarrow> string option \<Rightarrow> int option
      \<Rightarrow> py_dict option \<Rightarrow> int option \<times> key_slot_manager" where
  "add_vehicle_manually up self now plate price vehicle_id_opt preferred_slot data =
     (if is_duplicate_license_plate up self plate then (None, self)
      else
        (let vid = (case vehicle_id_opt of None \<Rightarrow> ''MANUAL-'' @ plate | Some v \<Rightarrow> v)
         in case preferred_slot of
              None \<Rightarrow> assign_vehicle up self now vid plate price data
            | Some p \<Rightarrow>
                if is_slot_available self p then
                  (let (placed, self') = assign_vehicle_to_slot up self now p vid plate price data False
                   in if placed then (Some p, self')
                      else assign_vehicle up self' now vid plate price data)
                else assign_vehicle up self now vid plate price data))"

subsection \<open>Sale, handover and release\<close>

text \<open>The \<^verbatim>\<open>enumerate\<close> loops over the pool: the first index that is \<^verbatim>\<open>None\<close>, and the
  first index whose record matches a normalised plate.\<close>

fun find_free_sold_slot :: "nat \<Rightarrow> sold_vehicle option list \<Rightarrow> nat option" where
  "find_free_sold_slot idx [] = None"
| "find_free_sold_slot idx (sold # rest) =
     (if sold = None then Some idx else find_free_sold_slot (Suc idx) rest)"

fun find_sold_index :: "(string \<Rightarrow> string) \<Rightarrow> string \<Rightarrow> nat \<Rightarrow> sold_vehicle option list \<Rightarrow> nat option" where
  "find_sold_index up normalized idx [] = None"
| "find_sold_index up normalized idx (sold # rest) =
     (if sold_matches up normalized sold then Some idx
      else find_sold_index up normalized (Suc idx) rest)"

text \<open>Decimal rendering of a non-negative integer, as in \<^verbatim>\<open>f"v{sold_slot_index + 1}"\<close>.\<close>

fun str_nat :: "nat \<Rightarrow> string" where
  "str_nat n =
     (if n < 10 then [char_of (48 + n)] else str_nat (n div 10) @ [char_of (48 + n mod 10)])"

declare str_nat.simps [simp del]

definition mark_vehicle_as_sold ::
    "(string \<Rightarrow> string) \<Rightarrow>
      key_slot_manager \<Rightarrow> datetime \<Rightarrow> string \<Rightarrow> pyfloat option \<Rightarrow> py_dict option
      \<Rightarrow> bool \<times> key_slot_manager" where
  "mark_vehicle_as_sold up self now plate price_sold buyer =
     (case get_vehicle_by_license_plate up self plate of
        None \<Rightarrow> (False, self)
      | Some assignment \<Rightarrow>
          (case find_free_sold_slot 0 (sold_vehicles self) of
             None \<Rightarrow> (False, self)
           | Some sold_slot_index \<Rightarrow>
               (let sold_slot_name = ''v'' @ str_nat (sold_slot_index + 1);
                    sold =
                      \<lparr>sold_slot = sold_slot_name,
                       sold_vehicle.vehicle_id = slot_assignment.vehicle_id assignment,
                       sold_vehicle.license_plate = slot_assignment.license_plate assignment,
                       sold_vehicle.purchase_price = slot_assignment.purchase_price assignment,
                       original_slot = slot_number assignment,
                       sold_at = now,
                       sold_price = price_sold,
                       buyer_info = buyer\<rparr>
                in (True,
                    self\<lparr>sold_vehicles := (sold_vehicles self)[sold_slot_index := Some sold],
                         slots := (slots self)(slot_number assignment := None)\<rparr>))))"

definition complete_vehicle_handover :: "(string \<Rightarrow> string) \<Rightarrow> key_slot_manager \<Rightarrow> string \<Rightarrow> bool \<times> key_slot_manager" where
  "complete_vehicle_handover up self plate =
     (case find_sold_index up (normalize_license_plate up plate) 0 (sold_vehicles self) of
        Some idx \<Rightarrow> (True, self\<lparr>sold_vehicles := (sold_vehicles self)[idx := None]\<rparr>)
      | None \<Rightarrow> (False, self))"

definition release_slot :: "key_slot_manager \<Rightarrow> int \<Rightarrow> bool \<times> key_slot_manager" where
  "release_slot self slot =
     (if \<not> (0 \<le> slot \<and> slot < total_slots self) then (False, self)
      else if slots self slot = None then (False, self)
      else (True, self\<lparr>slots := (slots self)(slot := None)\<rparr>))"

definition release_by_license_plate :: "(string \<Rightarrow> string) \<Rightarrow> key_slot_manager \<Rightarrow> string \<Rightarrow> bool \<times> key_slot_manager" where
  "release_by_license_plate up self plate =
     (case get_vehicle_by_license_plate up self plate of
        None \<Rightarrow> (False, self)
      | Some assignment \<Rightarrow> release_slot self (slot_number assignment))"

subsection \<open>Specification-level notions\<close>

text \<open>
  The manager after a new assignment has been written at index \<open>k\<close> with the clock
  reading \<open>now\<close>.
\<close>

definition with_assignment ::
    "key_slot_manager \<Rightarrow> datetime \<Rightarrow> int \<Rightarrow> string \<Rightarrow> string \<Rightarrow> pyfloat \<Rightarrow> py_dict option
      \<Rightarrow> key_slot_manager" where
  "with_assignment self now k vid plate price data =
     self\<lparr>slots := (slots self)(k \<mapsto>
        \<lparr>slot_number = k,
         slot_assignment.vehicle_id = vid,
         slot_assignment.license_plate = plate,
         slot_assignment.purchase_price = price,
         assigned_at = now,
         vehicle_data = data\<rparr>)\<rparr>"

text \<open>
  The algorithm of \<open>assign\<close> in the words of the specification. \<open>free_in self lo hi\<close> is
  the set of free indices of the table between \<open>lo\<close> and \<open>hi\<close>; the first free index
  ascending is its minimum and the highest free index is the maximum over the whole table.
\<close>

definition free_in :: "key_slot_manager \<Rightarrow> int \<Rightarrow> int \<Rightarrow> int set" where
  "free_in self lo hi = {k \<in> {lo..hi}. 0 \<le> k \<and> k < total_slots self \<and> slots self k = None}"

definition lowest_free :: "key_slot_manager \<Rightarrow> int \<Rightarrow> int \<Rightarrow> int option" where
  "lowest_free self lo hi =
     (if free_in self lo hi = {} then None else Some (Min (free_in self lo hi)))"

definition highest_free :: "key_slot_manager \<Rightarrow> int option" where
  "highest_free self =
     (if free_in self 0 (total_slots self - 1) = {} then None
      else Some (Max (free_in self 0 (total_slots self - 1))))"

definition assign_spec ::
    "(string \<Rightarrow> string) \<Rightarrow>
      key_slot_manager \<Rightarrow> datetime \<Rightarrow> string \<Rightarrow> string \<Rightarrow> pyfloat \<Rightarrow> py_dict option
      \<Rightarrow> int option \<times> key_slot_manager" where
  "assign_spec up self now vid plate price data =
     (if is_duplicate_license_plate up self plate then (None, self)
      else case assignment_strategy self of
        None \<Rightarrow>
          (case lowest_free self 0 (total_slots self - 1) of
             Some k \<Rightarrow> (Some k, with_assignment self now k vid plate price data)
           | None \<Rightarrow> (None, self))
      | Some range_for \<Rightarrow>
          (case lowest_free self (fst (range_for price)) (snd (range_for price)) of
             Some k \<Rightarrow> (Some k, with_assignment self now k vid plate price data)
           | None \<Rightarrow>
               (case highest_free self of
                  Some k \<Rightarrow> (Some k, with_assignment self now k vid plate price data)
                | None \<Rightarrow> (None, self))))"


text \<open>
  The invariants of the data model: an assignment's \<open>slot_number\<close> is the index that
  holds it and lies in the table, and no normalised plate occurs twice in the slot table and
  the handover pool together.
\<close>

definition plate_of_assignment :: "(string \<Rightarrow> string) \<Rightarrow> slot_assignment \<Rightarrow> string" where
  "plate_of_assignment up a = normalize_license_plate up (slot_assignment.license_plate a)"

definition plate_of_sold :: "(string \<Rightarrow> string) \<Rightarrow> sold_vehicle \<Rightarrow> string" where
  "plate_of_sold up v = normalize_license_plate up (sold_vehicle.license_plate v)"

definition well_formed :: "(string \<Rightarrow> string) \<Rightarrow> key_slot_manager \<Rightarrow> bool" where
  "well_formed up self \<longleftrightarrow>
     (\<forall>k a. slots self k = Some a \<longrightarrow> slot_number a = k \<and> 0 \<le> k \<and> k < total_slots self) \<and>
     (\<forall>j k a b. slots self j = Some a \<and> slots self k = Some b \<and>
        plate_of_assignment up a = plate_of_assignment up b \<longrightarrow> j = k) \<and>
     (\<forall>i j u v. i < length (sold_vehicles self) \<and> j < length (sold_vehicles self) \<and>
        sold_vehicles self ! i = Some u \<and> sold_vehicles self ! j = Some v \<and>
        plate_of_sold up u = plate_of_sold up v \<longrightarrow> i = j) \<and>
     (\<forall>k a i v. slots self k = Some a \<and> i < length (sold_vehicles self) \<and>
        sold_vehicles self ! i = Some v \<longrightarrow> plate_of_assignment up a \<noteq> plate_of_sold up v)"


subsection \<open>Example managers\<close>

text \<open>
  A table of three slots whose strategy sends every price to the range \<open>[0, 0]\<close>, with
  slot 0 occupied.
\<close>

definition single_tier_manager :: key_slot_manager where
  "single_tier_manager =
     with_assignment (init 3 (Some (\<lambda>_. (0, 0)))) 0 0 ''V1'' ''AB-123-C'' (Finite 3500) None"


text \<open>
  A table of three slots without a strategy whose pool holds one sold vehicle, at label
  \<^verbatim>\<open>v1\<close>.
\<close>

definition handover_example_manager :: key_slot_manager where
  "handover_example_manager =
     \<lparr>total_slots = 3,
      assignment_strategy = None,
      slots = (\<lambda>_. None),
      sold_vehicles =
        Some \<lparr>sold_slot = ''v1'',
              sold_vehicle.vehicle_id = ''V1'',
              sold_vehicle.license_plate = ''AB-123-C'',
              sold_vehicle.purchase_price = Finite 3500,
              original_slot = 0, sold_at = 9, sold_price = None, buyer_info = None\<rparr>
        # replicate 9 None\<rparr>"

subsection \<open>Sequences of operations\<close>

text \<open>
  The state-changing operations of the manager as data, and the manager reached by a
  sequence of calls.
\<close>

datatype operation =
    Assign_vehicle datetime string string pyfloat "py_dict option"
  | Add_vehicle_manually datetime string pyfloat "string option" "int option" "py_dict option"
  | Mark_vehicle_as_sold datetime string "pyfloat option" "py_dict option"
  | Complete_vehicle_handover string
  | Release_slot int
  | Release_by_license_plate string

fun apply_operation :: "(string \<Rightarrow> string) \<Rightarrow> key_slot_manager \<Rightarrow> operation \<Rightarrow> key_slot_manager" where
  "apply_operation up self (Assign_vehicle now vid plate price data) =
     snd (assign_vehicle up self now vid plate price data)"
| "apply_operation up self (Add_vehicle_manually now plate price vid preferred data) =
     snd (add_vehicle_manually up self now plate price vid preferred data)"
| "apply_operation up self (Mark_vehicle_as_sold now plate price_sold buyer) =
     snd (mark_vehicle_as_sold up self now plate price_sold buyer)"
| "apply_operation up self (Complete_vehicle_handover plate) =
     snd (complete_vehicle_handover up self plate)"
| "apply_operation up self (Release_slot slot) = snd (release_slot self slot)"
| "apply_operation up self (Release_by_license_plate plate) =
     snd (release_by_license_plate up self plate)"

definition run :: "(string \<Rightarrow> string) \<Rightarrow> key_slot_manager \<Rightarrow> operation list \<Rightarrow> key_slot_manager" where
  "run up self ops = foldl (apply_operation up) self ops"

text \<open>
  The normalised plates of all entries of a manager, first those of the slot table in index
  order, then those of the handover pool.
\<close>

definition all_plates :: "(string \<Rightarrow> string) \<Rightarrow> key_slot_manager \<Rightarrow> string list" where
  "all_plates up self =
     [plate_of_assignment up a. Some a \<leftarrow> slot_values self] @
     [plate_of_sold up v. Some v \<leftarrow> sold_vehicles self]"

text \<open>
  The normalised plates of the accepted calls in a sequence of \<open>assign_vehicle\<close> calls, in
  call order.
\<close>

fun accepted_plates ::
    "(string \<Rightarrow> string) \<Rightarrow>
      key_slot_manager \<Rightarrow> (datetime \<times> string \<times> string \<times> pyfloat \<times> py_dict option) list
      \<Rightarrow> string list" where
  "accepted_plates up self [] = []"
| "accepted_plates up self ((now, vid, plate, price, data) # calls) =
     (let (result, self') = assign_vehicle up self now vid plate price data
      in if result = None then accepted_plates up self' calls
         else normalize_license_plate up plate # accepted_plates up self' calls)"


text \<open>The set of normalised plates that occur in the slot table or in the handover pool.\<close>

definition present :: "(string \<Rightarrow> string) \<Rightarrow> key_slot_manager \<Rightarrow> string set" where
  "present up s = {n. (\<exists>k a. 0 \<le> k \<and> k < total_slots s \<and> slots s k = Some a \<and>
                      plate_of_assignment up a = n) \<or>
                   (\<exists>i v. i < length (sold_vehicles s) \<and> sold_vehicles s ! i = Some v \<and>
                      plate_of_sold up v = n)}"


text \<open>
  A sequence of \<open>mark_vehicle_as_sold\<close> calls with nothing in between: the result of each
  call and the final manager.
\<close>

fun mark_all ::
    "(string \<Rightarrow> string) \<Rightarrow>
      key_slot_manager \<Rightarrow> (datetime \<times> string \<times> pyfloat option \<times> py_dict option) list
      \<Rightarrow> bool list \<times> key_slot_manager" where
  "mark_all up self [] = ([], self)"
| "mark_all up self ((now, plate, price_sold, buyer) # calls) =
     (let (r, self') = mark_vehicle_as_sold up self now plate price_sold buyer;
          (rs, self'') = mark_all up self' calls
      in (r # rs, self''))"

text \<open>The number of free indices of the handover pool.\<close>

definition free_pool_slots :: "key_slot_manager \<Rightarrow> nat" where
  "free_pool_slots self = length (filter (\<lambda>v. v = None) (sold_vehicles self))"


text \<open>
  A table of eleven slots without a strategy holding eleven vehicles, with an empty pool, and
  the sale of the first ten of them.
\<close>

definition eleven_vehicles_manager :: key_slot_manager where
  "eleven_vehicles_manager =
     run ascii_upper (init 11 None)
       [Assign_vehicle 0 ''V1'' ''A'' (Finite 100) None,
        Assign_vehicle 0 ''V2'' ''B'' (Finite 100) None,
        Assign_vehicle 0 ''V3'' ''C'' (Finite 100) None,
        Assign_vehicle 0 ''V4'' ''D'' (Finite 100) None,
        Assign_vehicle 0 ''V5'' ''E'' (Finite 100) None,
        Assign_vehicle 0 ''V6'' ''F'' (Finite 100) None,
        Assign_vehicle 0 ''V7'' ''G'' (Finite 100) None,
        Assign_vehicle 0 ''V8'' ''H'' (Finite 100) None,
        Assign_vehicle 0 ''V9'' ''I'' (Finite 100) None,
        Assign_vehicle 0 ''V10'' ''J'' (Finite 100) None,
        Assign_vehicle 0 ''V11'' ''K'' (Finite 100) None]"

definition ten_sales :: "(datetime \<times> string \<times> pyfloat option \<times> py_dict option) list" where
  "ten_sales =
     [(1, ''A'', None, None), (1, ''B'', None, None), (1, ''C'', None, None),
      (1, ''D'', None, None), (1, ''E'', None, None), (1, ''F'', None, None),
      (1, ''G'', None, None), (1, ''H'', None, None), (1, ''I'', None, None),
      (1, ''J'', None, None)]"


section \<open>Scanning an index range\<close>

lemma find_upto_Some:
  "find P [a..b] = Some k \<longleftrightarrow> a \<le> k \<and> k \<le> b \<and> P k \<and> (\<forall>j. a \<le> j \<and> j < k \<longrightarrow> \<not> P j)"
proof (induction a b rule: upto.induct)
  case (1 i j)
  show ?case
  proof (cases "i \<le> j")
    case False
    then show ?thesis by (simp add: upto.simps)
  next
    case True
    then have unf: "[i..j] = i # [i + 1..j]" by (simp add: upto.simps)
    show ?thesis
    proof (cases "P i")
      case True
      then show ?thesis using \<open>i \<le> j\<close> unf by (auto simp: not_less)
    next
      case False
      have "(\<forall>ja. i \<le> ja \<and> ja < k \<longrightarrow> \<not> P ja) \<longleftrightarrow> (\<forall>ja. i + 1 \<le> ja \<and> ja < k \<longrightarrow> \<not> P ja)"
        using False by (metis add1_zle_eq order_le_less)
      moreover have "P k \<Longrightarrow> (i \<le> k \<longleftrightarrow> i + 1 \<le> k)"
        using False by (cases "k = i") auto
      ultimately show ?thesis using False 1[OF True] unf True
        by auto
    qed
  qed
qed

lemma find_upto_None:
  "find P [a..b] = None \<longleftrightarrow> (\<forall>j. a \<le> j \<and> j \<le> b \<longrightarrow> \<not> P j)"
  by (auto simp: find_None_iff)

lemma find_rev_upto_None:
  "find P (rev [a..b]) = None \<longleftrightarrow> (\<forall>j. a \<le> j \<and> j \<le> b \<longrightarrow> \<not> P j)"
  by (auto simp: find_None_iff)

lemma find_append:
  "find P (xs @ ys) = (case find P xs of Some x \<Rightarrow> Some x | None \<Rightarrow> find P ys)"
  by (induction xs) auto

lemma find_rev_upto_Some:
  "find P (rev [a..b]) = Some k \<longleftrightarrow> a \<le> k \<and> k \<le> b \<and> P k \<and> (\<forall>j. k < j \<and> j \<le> b \<longrightarrow> \<not> P j)"
proof (induction "nat (b - a + 1)" arbitrary: b)
  case 0
  then have "b < a" by simp
  then show ?case by auto
next
  case (Suc n)
  then have le: "a \<le> b" by simp
  then have unf: "rev [a..b] = b # rev [a..b - 1]" by (simp add: upto_rec2)
  have n: "n = nat (b - 1 - a + 1)" using Suc(2) by simp
  show ?case
  proof (cases "P b")
    case True
    then have "k \<le> b \<and> (\<forall>j. k < j \<and> j \<le> b \<longrightarrow> \<not> P j) \<longleftrightarrow> k = b"
      by (metis order_le_less order_refl not_less)
    then show ?thesis using True le unf by auto
  next
    case False
    have "(\<forall>j. k < j \<and> j \<le> b \<longrightarrow> \<not> P j) \<longleftrightarrow> (\<forall>j. k < j \<and> j \<le> b - 1 \<longrightarrow> \<not> P j)"
      using False by (metis zle_diff1_eq order_le_less)
    then show ?thesis using False Suc(1)[OF n] unf le by auto
  qed
qed

section \<open>The assignment algorithm\<close>

lemma assign_vehicle_to_slot_available:
  "is_slot_available s k \<Longrightarrow>
     assign_vehicle_to_slot up s now k vid plate price data False =
       (True, with_assignment s now k vid plate price data)"
  by (simp add: assign_vehicle_to_slot_def with_assignment_def)

lemma assign_first_available_find:
  "assign_first_available up xs s now vid plate price data =
     (case find (is_slot_available s) xs of
        None \<Rightarrow> (None, s)
      | Some k \<Rightarrow> (Some k, with_assignment s now k vid plate price data))"
  by (induction xs) (simp_all add: assign_vehicle_to_slot_available)

lemma get_available_slot_in_range_available:
  "get_available_slot_in_range s lo hi = Some k \<Longrightarrow> is_slot_available s k"
  by (simp add: get_available_slot_in_range_def find_upto_Some)

lemma get_highest_available_slot_available:
  "get_highest_available_slot s = Some k \<Longrightarrow> is_slot_available s k"
  by (simp add: get_highest_available_slot_def find_rev_upto_Some)

lemma assign_vehicle_unfold:
  "assign_vehicle up s now vid plate price data =
     (if is_duplicate_license_plate up s plate then (None, s)
      else case assignment_strategy s of
        None \<Rightarrow>
          (case find (is_slot_available s) [0 .. total_slots s - 1] of
             None \<Rightarrow> (None, s)
           | Some k \<Rightarrow> (Some k, with_assignment s now k vid plate price data))
      | Some f \<Rightarrow>
          (case get_available_slot_in_range s (fst (f price)) (snd (f price)) of
             Some k \<Rightarrow> (Some k, with_assignment s now k vid plate price data)
           | None \<Rightarrow>
               (case get_highest_available_slot s of
                  Some k \<Rightarrow> (Some k, with_assignment s now k vid plate price data)
                | None \<Rightarrow> (None, s))))"
  by (auto simp: assign_vehicle_def assign_first_available_find Let_def split_beta
        assign_vehicle_to_slot_available get_available_slot_in_range_available
        get_highest_available_slot_available
      split: option.splits prod.splits)

lemma finite_free_in: "finite (free_in s lo hi)"
  by (rule finite_subset [of _ "{lo..hi}"]) (auto simp: free_in_def)

lemma get_available_slot_in_range_lowest:
  "get_available_slot_in_range s lo hi = lowest_free s lo hi"
proof (cases "free_in s lo hi = {}")
  case True
  then have "\<forall>j. lo \<le> j \<and> j \<le> min (hi + 1) (total_slots s) - 1 \<longrightarrow> \<not> is_slot_available s j"
    by (auto simp: free_in_def is_slot_available_def)
  then show ?thesis using True
    by (simp add: get_available_slot_in_range_def lowest_free_def find_upto_None)
next
  case False
  define m where "m = Min (free_in s lo hi)"
  have mem: "m \<in> free_in s lo hi" unfolding m_def using False finite_free_in by (rule_tac Min_in) auto
  have least: "\<And>j. j \<in> free_in s lo hi \<Longrightarrow> m \<le> j" unfolding m_def using finite_free_in by simp
  have "find (is_slot_available s) [lo .. min (hi + 1) (total_slots s) - 1] = Some m"
    unfolding find_upto_Some
  proof (intro conjI allI impI)
    fix j assume j: "lo \<le> j \<and> j < m"
    show "\<not> is_slot_available s j"
    proof
      assume "is_slot_available s j"
      then have "j \<in> free_in s lo hi" using j mem
        by (auto simp: free_in_def is_slot_available_def split: if_splits)
      then show False using least j by fastforce
    qed
  qed (use mem in \<open>auto simp: free_in_def is_slot_available_def\<close>)
  then show ?thesis using False
    by (simp add: get_available_slot_in_range_def lowest_free_def m_def)
qed

lemma get_highest_available_slot_highest:
  "get_highest_available_slot s = highest_free s"
proof (cases "free_in s 0 (total_slots s - 1) = {}")
  case True
  then have "\<forall>j. 0 \<le> j \<and> j \<le> total_slots s - 1 \<longrightarrow> \<not> is_slot_available s j"
    by (auto simp: free_in_def is_slot_available_def)
  then show ?thesis using True
    by (simp add: get_highest_available_slot_def highest_free_def find_rev_upto_None)
next
  case False
  define m where "m = Max (free_in s 0 (total_slots s - 1))"
  have mem: "m \<in> free_in s 0 (total_slots s - 1)"
    unfolding m_def using False finite_free_in by (rule_tac Max_in) auto
  have greatest: "\<And>j. j \<in> free_in s 0 (total_slots s - 1) \<Longrightarrow> j \<le> m"
    unfolding m_def using finite_free_in by simp
  have "find (is_slot_available s) (rev [0 .. total_slots s - 1]) = Some m"
    unfolding find_rev_upto_Some
  proof (intro conjI allI impI)
    fix j assume j: "m < j \<and> j \<le> total_slots s - 1"
    show "\<not> is_slot_available s j"
    proof
      assume "is_slot_available s j"
      then have "j \<in> free_in s 0 (total_slots s - 1)" using j mem
        by (auto simp: free_in_def is_slot_available_def split: if_splits)
      then show False using greatest j by fastforce
    qed
  qed (use mem in \<open>auto simp: free_in_def is_slot_available_def\<close>)
  then show ?thesis using False
    by (simp add: get_highest_available_slot_def highest_free_def m_def)
qed


lemma is_slot_available_iff:
  "is_slot_available s k \<longleftrightarrow> 0 \<le> k \<and> k < total_slots s \<and> slots s k = None"
  by (auto simp: is_slot_available_def)

lemma assign_vehicle_None_iff:
  assumes "\<not> is_duplicate_license_plate up s plate"
  shows "fst (assign_vehicle up s now vid plate price data) = None \<longleftrightarrow>
         (\<forall>k. \<not> is_slot_available s k)"
proof (cases "assignment_strategy s")
  case None
  have "find (is_slot_available s) [0 .. total_slots s - 1] = None \<longleftrightarrow>
        (\<forall>k. \<not> is_slot_available s k)"
    by (auto simp: find_upto_None is_slot_available_iff)
  then show ?thesis using assms None
    by (cases "find (is_slot_available s) [0 .. total_slots s - 1]")
       (simp_all add: assign_vehicle_unfold)
next
  case (Some f)
  have hi: "get_highest_available_slot s = None \<longleftrightarrow> (\<forall>k. \<not> is_slot_available s k)"
    by (auto simp: get_highest_available_slot_def find_rev_upto_None is_slot_available_iff)
  show ?thesis
  proof (cases "get_available_slot_in_range s (fst (f price)) (snd (f price))")
    case inner: None
    then show ?thesis using assms Some hi
      by (cases "get_highest_available_slot s") (simp_all add: assign_vehicle_unfold)
  next
    case inner: (Some k)
    then show ?thesis
      using assms Some get_available_slot_in_range_available [OF inner]
      by (auto simp: assign_vehicle_unfold)
  qed
qed



section \<open>Well-formed managers\<close>

lemma well_formedI:
  assumes "\<And>k a. slots s k = Some a \<Longrightarrow> slot_number a = k \<and> 0 \<le> k \<and> k < total_slots s"
    and "\<And>j k a b. slots s j = Some a \<Longrightarrow> slots s k = Some b \<Longrightarrow>
          plate_of_assignment up a = plate_of_assignment up b \<Longrightarrow> j = k"
    and "\<And>i j u v. i < length (sold_vehicles s) \<Longrightarrow> j < length (sold_vehicles s) \<Longrightarrow>
          sold_vehicles s ! i = Some u \<Longrightarrow> sold_vehicles s ! j = Some v \<Longrightarrow>
          plate_of_sold up u = plate_of_sold up v \<Longrightarrow> i = j"
    and "\<And>k a i v. slots s k = Some a \<Longrightarrow> i < length (sold_vehicles s) \<Longrightarrow>
          sold_vehicles s ! i = Some v \<Longrightarrow> plate_of_assignment up a \<noteq> plate_of_sold up v"
  shows "well_formed up s"
  unfolding well_formed_def using assms by blast

lemma well_formed_slot:
  "well_formed up s \<Longrightarrow> slots s k = Some a \<Longrightarrow> slot_number a = k \<and> 0 \<le> k \<and> k < total_slots s"
  unfolding well_formed_def by blast

lemma well_formed_table_unique:
  "well_formed up s \<Longrightarrow> slots s j = Some a \<Longrightarrow> slots s k = Some b \<Longrightarrow>
     plate_of_assignment up a = plate_of_assignment up b \<Longrightarrow> j = k"
  unfolding well_formed_def by blast

lemma well_formed_pool_unique:
  "well_formed up s \<Longrightarrow> i < length (sold_vehicles s) \<Longrightarrow> j < length (sold_vehicles s) \<Longrightarrow>
     sold_vehicles s ! i = Some u \<Longrightarrow> sold_vehicles s ! j = Some v \<Longrightarrow>
     plate_of_sold up u = plate_of_sold up v \<Longrightarrow> i = j"
  unfolding well_formed_def by blast

lemma well_formed_table_pool:
  "well_formed up s \<Longrightarrow> slots s k = Some a \<Longrightarrow> i < length (sold_vehicles s) \<Longrightarrow>
     sold_vehicles s ! i = Some v \<Longrightarrow> plate_of_assignment up a \<noteq> plate_of_sold up v"
  unfolding well_formed_def by blast

lemma list_ex_slot_values:
  "list_ex P (slot_values s) \<longleftrightarrow> (\<exists>k. 0 \<le> k \<and> k < total_slots s \<and> P (slots s k))"
  by (auto simp: slot_values_def list_ex_iff)

lemma is_duplicate_license_plate_iff:
  "is_duplicate_license_plate up s plate \<longleftrightarrow>
     (\<exists>k a. 0 \<le> k \<and> k < total_slots s \<and> slots s k = Some a \<and>
        plate_of_assignment up a = normalize_license_plate up plate) \<or>
     (\<exists>i v. i < length (sold_vehicles s) \<and> sold_vehicles s ! i = Some v \<and>
        plate_of_sold up v = normalize_license_plate up plate)"
  unfolding is_duplicate_license_plate_def Let_def list_ex_slot_values
  by (auto simp: list_ex_iff in_set_conv_nth assignment_matches_def sold_matches_def
        plate_of_assignment_def plate_of_sold_def split: option.splits)

lemma well_formed_init: "well_formed up (init n strategy)"
  by (auto simp: well_formed_def init_def)

lemma well_formed_with_assignment:
  assumes wf: "well_formed up s" and av: "is_slot_available s k"
    and nd: "\<not> is_duplicate_license_plate up s plate"
  shows "well_formed up (with_assignment s now k vid plate price data)"
proof -
  define a0 where "a0 = \<lparr>slot_number = k, slot_assignment.vehicle_id = vid,
    slot_assignment.license_plate = plate, slot_assignment.purchase_price = price,
    assigned_at = now, vehicle_data = data\<rparr>"
  define s' where "s' = with_assignment s now k vid plate price data"
  have sl: "slots s' = (slots s)(k \<mapsto> a0)" and pool: "sold_vehicles s' = sold_vehicles s"
    and tot: "total_slots s' = total_slots s"
    by (simp_all add: s'_def with_assignment_def a0_def)
  have a0: "slot_number a0 = k" "plate_of_assignment up a0 = normalize_license_plate up plate"
    by (simp_all add: a0_def plate_of_assignment_def)
  have k: "0 \<le> k" "k < total_slots s" "slots s k = None"
    using av by (auto simp: is_slot_available_def split: if_splits)
  have fresh1: "\<And>j a. slots s j = Some a \<Longrightarrow> plate_of_assignment up a \<noteq> normalize_license_plate up plate"
    using nd well_formed_slot [OF wf] unfolding is_duplicate_license_plate_iff by blast
  have fresh2: "\<And>i v. i < length (sold_vehicles s) \<Longrightarrow> sold_vehicles s ! i = Some v \<Longrightarrow>
      plate_of_sold up v \<noteq> normalize_license_plate up plate"
    using nd unfolding is_duplicate_license_plate_iff by blast
  have "well_formed up s'"
  proof (rule well_formedI)
    fix j a assume "slots s' j = Some a"
    then show "slot_number a = j \<and> 0 \<le> j \<and> j < total_slots s'"
      using well_formed_slot [OF wf, of j a] k a0 by (auto simp: sl tot split: if_splits)
  next
    fix i j a b
    assume "slots s' i = Some a" "slots s' j = Some b" "plate_of_assignment up a = plate_of_assignment up b"
    then show "i = j"
      using well_formed_table_unique [OF wf, of i a j b] fresh1 [of i a] fresh1 [of j b] a0
      by (auto simp: sl split: if_splits)
  next
    fix i j u v
    assume "i < length (sold_vehicles s')" "j < length (sold_vehicles s')"
      "sold_vehicles s' ! i = Some u" "sold_vehicles s' ! j = Some v" "plate_of_sold up u = plate_of_sold up v"
    then show "i = j" using well_formed_pool_unique [OF wf, of i j u v] by (simp add: pool)
  next
    fix j a i v
    assume "slots s' j = Some a" "i < length (sold_vehicles s')" "sold_vehicles s' ! i = Some v"
    then show "plate_of_assignment up a \<noteq> plate_of_sold up v"
      using well_formed_table_pool [OF wf, of j a i v] fresh2 [of i v] a0
      by (auto simp: sl pool split: if_splits)
  qed
  then show ?thesis by (simp add: s'_def)
qed

lemma placed_cases:
  assumes "(case fo of None \<Rightarrow> (None, s) | Some k \<Rightarrow> (Some k, W k)) = (r, s')"
    and "\<And>k. fo = Some k \<Longrightarrow> A k"
  shows "(r = None \<and> s' = s) \<or> (\<exists>k. r = Some k \<and> A k \<and> s' = W k)"
  using assms by (cases fo) auto

lemma assign_vehicle_cases:
  assumes "assign_vehicle up s now vid plate price data = (r, s')"
  shows "(r = None \<and> s' = s) \<or>
         (\<exists>k. r = Some k \<and> is_slot_available s k \<and> \<not> is_duplicate_license_plate up s plate \<and>
            s' = with_assignment s now k vid plate price data)"
proof (cases "is_duplicate_license_plate up s plate")
  case True
  then show ?thesis using assms unfolding assign_vehicle_unfold by auto
next
  case False
  show ?thesis
  proof (cases "assignment_strategy s")
    case None
    have "(case find (is_slot_available s) [0 .. total_slots s - 1] of None \<Rightarrow> (None, s)
        | Some k \<Rightarrow> (Some k, with_assignment s now k vid plate price data)) = (r, s')"
      using assms False None unfolding assign_vehicle_unfold by simp
    from placed_cases [OF this, of "is_slot_available s"] show ?thesis
      using False by (simp add: find_upto_Some)
  next
    case (Some f)
    show ?thesis
    proof (cases "get_available_slot_in_range s (fst (f price)) (snd (f price))")
      case inner: None
      have "(case get_highest_available_slot s of None \<Rightarrow> (None, s)
          | Some k \<Rightarrow> (Some k, with_assignment s now k vid plate price data)) = (r, s')"
        using assms False Some inner unfolding assign_vehicle_unfold by simp
      from placed_cases [OF this, of "is_slot_available s"] show ?thesis
        using False get_highest_available_slot_available by simp
    next
      case inner: (Some k)
      have "r = Some k" "s' = with_assignment s now k vid plate price data"
        using assms False Some inner unfolding assign_vehicle_unfold by simp_all
      then show ?thesis
        using False get_available_slot_in_range_available [OF inner] by simp
    qed
  qed
qed

lemma well_formed_assign_vehicle:
  "well_formed up s \<Longrightarrow> well_formed up (snd (assign_vehicle up s now vid plate price data))"
  using assign_vehicle_cases [of up s now vid plate price data]
  by (cases "assign_vehicle up s now vid plate price data") (auto intro: well_formed_with_assignment)

lemma is_duplicate_with_assignment:
  "is_slot_available s k \<Longrightarrow>
     is_duplicate_license_plate up (with_assignment s now k vid plate price data) plate"
  unfolding is_duplicate_license_plate_iff
  by (auto simp: with_assignment_def is_slot_available_def plate_of_assignment_def split: if_splits)

lemma add_vehicle_manually_cases:
  assumes "add_vehicle_manually up s now plate price vo pref data = (r, s')"
  shows "(r = None \<and> s' = s) \<or>
         (\<exists>k. r = Some k \<and> is_slot_available s k \<and> \<not> is_duplicate_license_plate up s plate \<and>
            s' = with_assignment s now k
                   (case vo of None \<Rightarrow> ''MANUAL-'' @ plate | Some v \<Rightarrow> v) plate price data)"
  using assms unfolding add_vehicle_manually_def Let_def
  by (auto simp: assign_vehicle_to_slot_available split: if_splits option.splits
      dest!: assign_vehicle_cases)

lemma well_formed_add_vehicle_manually:
  "well_formed up s \<Longrightarrow> well_formed up (snd (add_vehicle_manually up s now plate price vo pref data))"
  using add_vehicle_manually_cases [of up s now plate price vo pref data]
  by (cases "add_vehicle_manually up s now plate price vo pref data")
     (auto intro: well_formed_with_assignment)

lemma well_formed_clear_slot:
  assumes wf: "well_formed up s"
  shows "well_formed up (s\<lparr>slots := (slots s)(k := None)\<rparr>)"
proof (rule well_formedI)
  fix j a assume "slots (s\<lparr>slots := (slots s)(k := None)\<rparr>) j = Some a"
  then show "slot_number a = j \<and> 0 \<le> j \<and> j < total_slots (s\<lparr>slots := (slots s)(k := None)\<rparr>)"
    using well_formed_slot [OF wf, of j a] by (auto split: if_splits)
next
  fix i j a b
  assume "slots (s\<lparr>slots := (slots s)(k := None)\<rparr>) i = Some a"
    "slots (s\<lparr>slots := (slots s)(k := None)\<rparr>) j = Some b"
    "plate_of_assignment up a = plate_of_assignment up b"
  then show "i = j"
    using well_formed_table_unique [OF wf, of i a j b] by (auto split: if_splits)
next
  fix i j u v
  assume "i < length (sold_vehicles (s\<lparr>slots := (slots s)(k := None)\<rparr>))"
    "j < length (sold_vehicles (s\<lparr>slots := (slots s)(k := None)\<rparr>))"
    "sold_vehicles (s\<lparr>slots := (slots s)(k := None)\<rparr>) ! i = Some u"
    "sold_vehicles (s\<lparr>slots := (slots s)(k := None)\<rparr>) ! j = Some v"
    "plate_of_sold up u = plate_of_sold up v"
  then show "i = j" using well_formed_pool_unique [OF wf, of i j u v] by simp
next
  fix j a i v
  assume "slots (s\<lparr>slots := (slots s)(k := None)\<rparr>) j = Some a"
    "i < length (sold_vehicles (s\<lparr>slots := (slots s)(k := None)\<rparr>))"
    "sold_vehicles (s\<lparr>slots := (slots s)(k := None)\<rparr>) ! i = Some v"
  then show "plate_of_assignment up a \<noteq> plate_of_sold up v"
    using well_formed_table_pool [OF wf, of j a i v] by (auto split: if_splits)
qed

lemma well_formed_release_slot: "well_formed up s \<Longrightarrow> well_formed up (snd (release_slot s k))"
  by (auto simp: release_slot_def well_formed_clear_slot)

lemma well_formed_release_by_license_plate:
  "well_formed up s \<Longrightarrow> well_formed up (snd (release_by_license_plate up s plate))"
  by (auto simp: release_by_license_plate_def well_formed_release_slot split: option.splits)

lemma assign_vehicle_stores:
  assumes "assign_vehicle up s now vid plate price data = (Some k, s')"
  shows "s' = with_assignment s now k vid plate price data \<and> is_slot_available s k"
  using assign_vehicle_cases [OF assms] by auto


section \<open>Scanning the handover pool\<close>

lemma find_sold_index_Some:
  "find_sold_index up n idx xs = Some i \<longleftrightarrow>
     idx \<le> i \<and> i - idx < length xs \<and> sold_matches up n (xs ! (i - idx)) \<and>
     (\<forall>j < i - idx. \<not> sold_matches up n (xs ! j))"
proof (induction xs arbitrary: idx)
  case Nil
  then show ?case by simp
next
  case (Cons x xs)
  show ?case
  proof (cases "sold_matches up n x")
    case True
    then show ?thesis by (cases "i = idx") (auto simp: nth_Cons split: nat.splits)
  next
    case False
    have "(\<forall>j < i - idx. \<not> sold_matches up n ((x # xs) ! j)) \<longleftrightarrow>
          (\<forall>j < i - Suc idx. \<not> sold_matches up n (xs ! j))" if "Suc idx \<le> i"
    proof -
      from that obtain m where m: "i - idx = Suc m" "i - Suc idx = m"
        by (metis Suc_diff_Suc Suc_le_lessD)
      show ?thesis unfolding m using False by (simp add: All_less_Suc2)
    qed
    moreover have "Suc idx \<le> i \<Longrightarrow> (x # xs) ! (i - idx) = xs ! (i - Suc idx)"
      by (metis Suc_diff_Suc Suc_le_lessD nth_Cons_Suc)
    moreover have "idx \<le> i \<and> sold_matches up n ((x # xs) ! (i - idx)) \<Longrightarrow> Suc idx \<le> i"
      using False by (cases "i = idx") auto
    ultimately show ?thesis using False Cons.IH [of "Suc idx"]
      by (auto simp: less_Suc_eq_le Suc_diff_le)
  qed
qed

lemma find_sold_index_None:
  "find_sold_index up n idx xs = None \<longleftrightarrow> (\<forall>v \<in> set xs. \<not> sold_matches up n v)"
  by (induction xs arbitrary: idx) auto


lemma find_free_sold_slot_Some:
  "find_free_sold_slot idx xs = Some i \<longleftrightarrow>
     idx \<le> i \<and> i - idx < length xs \<and> xs ! (i - idx) = None \<and>
     (\<forall>j < i - idx. xs ! j \<noteq> None)"
proof (induction xs arbitrary: idx)
  case Nil
  then show ?case by simp
next
  case (Cons x xs)
  show ?case
  proof (cases "x = None")
    case True
    then show ?thesis by (cases "i = idx") (auto simp: nth_Cons split: nat.splits)
  next
    case False
    have "(\<forall>j < i - idx. (x # xs) ! j \<noteq> None) \<longleftrightarrow> (\<forall>j < i - Suc idx. xs ! j \<noteq> None)"
      if "Suc idx \<le> i"
    proof -
      from that obtain m where m: "i - idx = Suc m" "i - Suc idx = m"
        by (metis Suc_diff_Suc Suc_le_lessD)
      show ?thesis unfolding m using False by (simp add: All_less_Suc2)
    qed
    moreover have "Suc idx \<le> i \<Longrightarrow> (x # xs) ! (i - idx) = xs ! (i - Suc idx)"
      by (metis Suc_diff_Suc Suc_le_lessD nth_Cons_Suc)
    moreover have "idx \<le> i \<and> (x # xs) ! (i - idx) = None \<Longrightarrow> Suc idx \<le> i"
      using False by (cases "i = idx") auto
    ultimately show ?thesis using False Cons.IH [of "Suc idx"]
      by (auto simp: less_Suc_eq_le Suc_diff_le)
  qed
qed

lemma find_free_sold_slot_None:
  "find_free_sold_slot idx xs = None \<longleftrightarrow> None \<notin> set xs"
  by (induction xs arbitrary: idx) auto

lemma get_vehicle_by_license_plate_None:
  "get_vehicle_by_license_plate up s plate = None \<longleftrightarrow>
     (\<forall>k. 0 \<le> k \<and> k < total_slots s \<longrightarrow>
          \<not> assignment_matches up (normalize_license_plate up plate) (slots s k))"
proof -
  let ?P = "assignment_matches up (normalize_license_plate up plate)"
  have "find ?P (slot_values s) = Some None \<Longrightarrow> False"
    by (auto simp: find_Some_iff assignment_matches_def)
  then have "get_vehicle_by_license_plate up s plate = None \<longleftrightarrow> find ?P (slot_values s) = None"
    unfolding get_vehicle_by_license_plate_def
    by (cases "find ?P (slot_values s)") auto
  also have "\<dots> \<longleftrightarrow> \<not> list_ex ?P (slot_values s)"
    by (auto simp: find_None_iff list_ex_iff)
  finally show ?thesis by (auto simp: list_ex_slot_values)
qed

lemma get_vehicle_by_license_plate_Some:
  assumes "get_vehicle_by_license_plate up s plate = Some a"
  shows "\<exists>k. 0 \<le> k \<and> k < total_slots s \<and> slots s k = Some a \<and>
             plate_of_assignment up a = normalize_license_plate up plate"
proof -
  let ?P = "assignment_matches up (normalize_license_plate up plate)"
  from assms have "find ?P (slot_values s) = Some (Some a)"
    unfolding get_vehicle_by_license_plate_def
    by (cases "find ?P (slot_values s)") auto
  then have "Some a \<in> set (slot_values s)" "?P (Some a)"
    by (auto simp: find_Some_iff)
  then show ?thesis
    by (auto simp: slot_values_def assignment_matches_def plate_of_assignment_def)
qed

lemma get_vehicle_by_license_plate_unique:
  assumes wf: "well_formed up s" and k: "slots s k = Some a"
    and p: "plate_of_assignment up a = normalize_license_plate up plate"
  shows "get_vehicle_by_license_plate up s plate = Some a"
proof (cases "get_vehicle_by_license_plate up s plate")
  case None
  then show ?thesis
    using well_formed_slot [OF wf k] k p
    by (auto simp: get_vehicle_by_license_plate_None assignment_matches_def plate_of_assignment_def)
next
  case (Some b)
  from get_vehicle_by_license_plate_Some [OF Some] obtain j where
    j: "slots s j = Some b" "plate_of_assignment up b = normalize_license_plate up plate" by blast
  have "j = k" using well_formed_table_unique [OF wf j(1) k] j(2) p by simp
  then show ?thesis using Some j(1) k by simp
qed

lemma filter_sold_none:
  "(\<forall>v. Some v \<in> set xs \<longrightarrow> \<not> P v) \<Longrightarrow> filter P [v. Some v \<leftarrow> xs] = []"
  by (induction xs) (auto split: option.splits)

lemma sold_comprehension_append:
  "[v. Some v \<leftarrow> xs @ ys] = [v. Some v \<leftarrow> xs] @ [v. Some v \<leftarrow> ys]"
  by simp


section \<open>The example managers\<close>

lemma normalize_AB_123_C: "normalize_license_plate ascii_upper ''AB-123-C'' = ''AB123C''"
  by code_simp

lemma normalize_ab_123_c: "normalize_license_plate ascii_upper ''ab 123 c'' = ''AB123C''"
  by code_simp

lemma normalize_CD_456_E: "normalize_license_plate ascii_upper ''CD-456-E'' = ''CD456E''"
  by code_simp

lemma well_formed_single_tier_manager: "well_formed ascii_upper single_tier_manager"
  unfolding single_tier_manager_def
  by (rule well_formed_with_assignment [OF well_formed_init])
     (simp_all add: is_slot_available_def is_duplicate_license_plate_iff init_def)


section \<open>Every operation preserves well-formedness\<close>

lemma well_formed_mark_vehicle_as_sold:
  assumes wf: "well_formed up s"
  shows "well_formed up (snd (mark_vehicle_as_sold up s now plate price_sold buyer))"
proof (cases "get_vehicle_by_license_plate up s plate")
  case None
  then show ?thesis using wf by (simp add: mark_vehicle_as_sold_def)
next
  case (Some a)
  from get_vehicle_by_license_plate_Some [OF Some] obtain k where k: "slots s k = Some a" by blast
  have sn: "slot_number a = k" using well_formed_slot [OF wf k] by simp
  show ?thesis
  proof (cases "find_free_sold_slot 0 (sold_vehicles s)")
    case None
    then show ?thesis using wf Some by (simp add: mark_vehicle_as_sold_def)
  next
    case fi: (Some i)
    then have i: "i < length (sold_vehicles s)" "sold_vehicles s ! i = None"
      by (simp_all add: find_free_sold_slot_Some)
    define sold where "sold = \<lparr>sold_slot = ''v'' @ str_nat (i + 1),
        sold_vehicle.vehicle_id = slot_assignment.vehicle_id a,
        sold_vehicle.license_plate = slot_assignment.license_plate a,
        sold_vehicle.purchase_price = slot_assignment.purchase_price a,
        original_slot = k, sold_at = now, sold_price = price_sold, buyer_info = buyer\<rparr>"
    define s' where "s' = s\<lparr>sold_vehicles := (sold_vehicles s)[i := Some sold],
        slots := (slots s)(k := None)\<rparr>"
    have res: "snd (mark_vehicle_as_sold up s now plate price_sold buyer) = s'"
      by (simp add: mark_vehicle_as_sold_def Some fi sn s'_def sold_def)
    have ps: "plate_of_sold up sold = plate_of_assignment up a"
      by (simp add: plate_of_sold_def plate_of_assignment_def sold_def)
    have sl: "slots s' = (slots s)(k := None)"
      and pool: "sold_vehicles s' = (sold_vehicles s)[i := Some sold]"
      and tot: "total_slots s' = total_slots s"
      by (simp_all add: s'_def)
    have pl: "\<And>x v. x < length (sold_vehicles s) \<Longrightarrow> sold_vehicles s' ! x = Some v \<Longrightarrow>
        (x = i \<and> v = sold) \<or> (x \<noteq> i \<and> sold_vehicles s ! x = Some v)"
    proof -
      fix x v assume "x < length (sold_vehicles s)" "sold_vehicles s' ! x = Some v"
      then show "(x = i \<and> v = sold) \<or> (x \<noteq> i \<and> sold_vehicles s ! x = Some v)"
        by (cases "x = i") (simp_all add: pool)
    qed
    have "well_formed up s'"
    proof (rule well_formedI)
      fix j b assume "slots s' j = Some b"
      then show "slot_number b = j \<and> 0 \<le> j \<and> j < total_slots s'"
        using well_formed_slot [OF wf, of j b] by (auto simp: sl tot split: if_splits)
    next
      fix x y b c
      assume "slots s' x = Some b" "slots s' y = Some c" "plate_of_assignment up b = plate_of_assignment up c"
      then show "x = y"
        using well_formed_table_unique [OF wf, of x b y c] by (auto simp: sl split: if_splits)
    next
      fix x y u v
      assume a: "x < length (sold_vehicles s')" "y < length (sold_vehicles s')"
        "sold_vehicles s' ! x = Some u" "sold_vehicles s' ! y = Some v" "plate_of_sold up u = plate_of_sold up v"
      then have xy: "x < length (sold_vehicles s)" "y < length (sold_vehicles s)"
        by (simp_all add: pool)
      from pl [OF xy(1) a(3)] pl [OF xy(2) a(4)] show "x = y"
        using well_formed_pool_unique [OF wf xy, of u v]
          well_formed_table_pool [OF wf k xy(1), of u] well_formed_table_pool [OF wf k xy(2), of v]
          a(5) ps
        by auto
    next
      fix j b x v
      assume a: "slots s' j = Some b" "x < length (sold_vehicles s')" "sold_vehicles s' ! x = Some v"
      then have x: "x < length (sold_vehicles s)" by (simp add: pool)
      have j: "j \<noteq> k" "slots s j = Some b" using a(1) by (auto simp: sl split: if_splits)
      from pl [OF x a(3)] show "plate_of_assignment up b \<noteq> plate_of_sold up v"
        using well_formed_table_pool [OF wf j(2) x, of v]
          well_formed_table_unique [OF wf j(2) k] j(1) ps
        by auto
    qed
    then show ?thesis by (simp add: res)
  qed
qed

lemma well_formed_complete_vehicle_handover:
  assumes wf: "well_formed up s"
  shows "well_formed up (snd (complete_vehicle_handover up s plate))"
proof (cases "find_sold_index up (normalize_license_plate up plate) 0 (sold_vehicles s)")
  case None
  then show ?thesis using wf by (simp add: complete_vehicle_handover_def)
next
  case (Some i)
  define s' where "s' = s\<lparr>sold_vehicles := (sold_vehicles s)[i := None]\<rparr>"
  have res: "snd (complete_vehicle_handover up s plate) = s'"
    by (simp add: complete_vehicle_handover_def Some s'_def)
  have pl: "\<And>x v. x < length (sold_vehicles s) \<Longrightarrow> sold_vehicles s' ! x = Some v \<Longrightarrow>
      sold_vehicles s ! x = Some v"
  proof -
    fix x v assume "x < length (sold_vehicles s)" "sold_vehicles s' ! x = Some v"
    then show "sold_vehicles s ! x = Some v"
      by (cases "x = i") (simp_all add: s'_def)
  qed
  have len: "length (sold_vehicles s') = length (sold_vehicles s)" by (simp add: s'_def)
  have sl: "slots s' = slots s" "total_slots s' = total_slots s" by (simp_all add: s'_def)
  have "well_formed up s'"
  proof (rule well_formedI)
    fix j b assume "slots s' j = Some b"
    then show "slot_number b = j \<and> 0 \<le> j \<and> j < total_slots s'"
      using well_formed_slot [OF wf, of j b] by (simp add: sl)
  next
    fix x y b c
    assume "slots s' x = Some b" "slots s' y = Some c" "plate_of_assignment up b = plate_of_assignment up c"
    then show "x = y" using well_formed_table_unique [OF wf, of x b y c] by (simp add: sl)
  next
    fix x y u v
    assume a: "x < length (sold_vehicles s')" "y < length (sold_vehicles s')"
      "sold_vehicles s' ! x = Some u" "sold_vehicles s' ! y = Some v" "plate_of_sold up u = plate_of_sold up v"
    then have xy: "x < length (sold_vehicles s)" "y < length (sold_vehicles s)"
      by (simp_all add: len)
    show "x = y"
      using well_formed_pool_unique [OF wf xy pl [OF xy(1) a(3)] pl [OF xy(2) a(4)] a(5)] .
  next
    fix j b x v
    assume a: "slots s' j = Some b" "x < length (sold_vehicles s')" "sold_vehicles s' ! x = Some v"
    then have x: "x < length (sold_vehicles s)" by (simp add: len)
    show "plate_of_assignment up b \<noteq> plate_of_sold up v"
      using well_formed_table_pool [OF wf _ x pl [OF x a(3)], of j b] a(1) by (simp add: sl)
  qed
  then show ?thesis by (simp add: res)
qed

lemma well_formed_apply_operation:
  "well_formed up s \<Longrightarrow> well_formed up (apply_operation up s op)"
  by (cases op)
     (simp_all add: well_formed_assign_vehicle well_formed_add_vehicle_manually
        well_formed_mark_vehicle_as_sold well_formed_complete_vehicle_handover
        well_formed_release_slot well_formed_release_by_license_plate)

lemma well_formed_run: "well_formed up s \<Longrightarrow> well_formed up (run up s ops)"
  unfolding run_def by (induction ops arbitrary: s) (simp_all add: well_formed_apply_operation)

section \<open>Plates of a well-formed manager\<close>

lemma set_some_comprehension:
  "set [g a. Some a \<leftarrow> xs] = {g a | a. Some a \<in> set xs}"
  by (induction xs) (auto split: option.splits)

lemma distinct_some_comprehension:
  assumes "\<And>i j a b. i < length xs \<Longrightarrow> j < length xs \<Longrightarrow> xs ! i = Some a \<Longrightarrow>
             xs ! j = Some b \<Longrightarrow> g a = g b \<Longrightarrow> i = j"
  shows "distinct [g a. Some a \<leftarrow> xs]"
  using assms
proof (induction xs)
  case Nil
  then show ?case by simp
next
  case (Cons x xs)
  have tl: "distinct [g a. Some a \<leftarrow> xs]"
  proof (rule Cons.IH)
    fix i j a b
    assume "i < length xs" "j < length xs" "xs ! i = Some a" "xs ! j = Some b" "g a = g b"
    then have "Suc i = Suc j" by (intro Cons.prems [of "Suc i" "Suc j" a b]) simp_all
    then show "i = j" by simp
  qed
  show ?case
  proof (cases x)
    case None
    then show ?thesis using tl by simp
  next
    case (Some a)
    have "g a \<notin> set [g b. Some b \<leftarrow> xs]"
    proof
      assume "g a \<in> set [g b. Some b \<leftarrow> xs]"
      then obtain b where b: "Some b \<in> set xs" "g b = g a"
        unfolding set_some_comprehension by auto
      then obtain j where j: "j < length xs" "xs ! j = Some b" by (auto simp: in_set_conv_nth)
      have "0 = Suc j" using Some j b(2) by (intro Cons.prems [of 0 "Suc j" a b]) simp_all
      then show False by simp
    qed
    then show ?thesis using Some tl by simp
  qed
qed

lemma slot_values_nth:
  "i < length (slot_values s) \<Longrightarrow> slot_values s ! i = slots s (int i)"
  by (simp add: slot_values_def)

lemma well_formed_distinct_all_plates:
  assumes wf: "well_formed up s"
  shows "distinct (all_plates up s)"
proof -
  have t: "distinct [plate_of_assignment up a. Some a \<leftarrow> slot_values s]"
  proof (rule distinct_some_comprehension)
    fix i j a b
    assume "i < length (slot_values s)" "j < length (slot_values s)"
      "slot_values s ! i = Some a" "slot_values s ! j = Some b"
      "plate_of_assignment up a = plate_of_assignment up b"
    then have "int i = int j"
      using well_formed_table_unique [OF wf, of "int i" a "int j" b] by (simp add: slot_values_nth)
    then show "i = j" by simp
  qed
  have p: "distinct [plate_of_sold up v. Some v \<leftarrow> sold_vehicles s]"
    by (rule distinct_some_comprehension) (rule well_formed_pool_unique [OF wf])
  have d: "set [plate_of_assignment up a. Some a \<leftarrow> slot_values s] \<inter>
           set [plate_of_sold up v. Some v \<leftarrow> sold_vehicles s] = {}"
  proof (rule ccontr)
    assume "\<not> ?thesis"
    then obtain a v where av: "Some a \<in> set (slot_values s)" "Some v \<in> set (sold_vehicles s)"
      "plate_of_assignment up a = plate_of_sold up v"
      unfolding set_some_comprehension by auto
    from av(1) obtain k where k: "slots s k = Some a" by (auto simp: slot_values_def)
    from av(2) obtain i where i: "i < length (sold_vehicles s)" "sold_vehicles s ! i = Some v"
      by (auto simp: in_set_conv_nth)
    from well_formed_table_pool [OF wf k i] av(3) show False by simp
  qed
  show ?thesis unfolding all_plates_def using t p d by simp
qed


lemma present_iff:
  "n \<in> present up s \<longleftrightarrow>
     (\<exists>k a. 0 \<le> k \<and> k < total_slots s \<and> slots s k = Some a \<and> plate_of_assignment up a = n) \<or>
     (\<exists>i v. i < length (sold_vehicles s) \<and> sold_vehicles s ! i = Some v \<and> plate_of_sold up v = n)"
  by (simp add: present_def)

lemma is_duplicate_present:
  "is_duplicate_license_plate up s plate \<longleftrightarrow> normalize_license_plate up plate \<in> present up s"
  by (simp add: is_duplicate_license_plate_iff present_def)

lemma present_with_assignment:
  assumes "is_slot_available s k"
  shows "present up (with_assignment s now k vid plate price data) =
         insert (normalize_license_plate up plate) (present up s)"
proof -
  define a0 where "a0 = \<lparr>slot_number = k, slot_assignment.vehicle_id = vid,
    slot_assignment.license_plate = plate, slot_assignment.purchase_price = price,
    assigned_at = now, vehicle_data = data\<rparr>"
  define s' where "s' = with_assignment s now k vid plate price data"
  have sl: "slots s' = (slots s)(k \<mapsto> a0)" and pool: "sold_vehicles s' = sold_vehicles s"
    and tot: "total_slots s' = total_slots s"
    by (simp_all add: s'_def with_assignment_def a0_def)
  have a0: "plate_of_assignment up a0 = normalize_license_plate up plate"
    by (simp add: a0_def plate_of_assignment_def)
  have k: "0 \<le> k" "k < total_slots s" "slots s k = None"
    using assms by (auto simp: is_slot_available_def split: if_splits)
  have "present up s' = insert (normalize_license_plate up plate) (present up s)"
  proof (intro set_eqI iffI)
    fix n assume "n \<in> present up s'"
    then consider j a where "0 \<le> j" "j < total_slots s" "slots s' j = Some a"
        "plate_of_assignment up a = n"
      | i v where "i < length (sold_vehicles s)" "sold_vehicles s ! i = Some v" "plate_of_sold up v = n"
      unfolding present_iff by (auto simp: tot pool)
    then show "n \<in> insert (normalize_license_plate up plate) (present up s)"
    proof cases
      case 1
      show ?thesis
      proof (cases "j = k")
        case True
        then show ?thesis using 1 a0 by (simp add: sl)
      next
        case False
        then have "slots s j = Some a" using 1(3) by (simp add: sl)
        then have "n \<in> present up s" unfolding present_iff using 1 by blast
        then show ?thesis by simp
      qed
    next
      case 2
      then have "n \<in> present up s" unfolding present_iff by blast
      then show ?thesis by simp
    qed
  next
    fix n assume "n \<in> insert (normalize_license_plate up plate) (present up s)"
    then consider "n = normalize_license_plate up plate"
      | j a where "0 \<le> j" "j < total_slots s" "slots s j = Some a" "plate_of_assignment up a = n"
      | i v where "i < length (sold_vehicles s)" "sold_vehicles s ! i = Some v" "plate_of_sold up v = n"
      by (auto simp: present_iff)
    then show "n \<in> present up s'"
    proof cases
      case 1
      have "slots s' k = Some a0" by (simp add: sl)
      then show ?thesis unfolding present_iff using k a0 1 by (auto simp: tot)
    next
      case 2
      then have "j \<noteq> k" using k(3) by auto
      then have "slots s' j = Some a" using 2(3) by (simp add: sl)
      then show ?thesis unfolding present_iff using 2 by (auto simp: tot)
    next
      case 3
      then show ?thesis unfolding present_iff using pool by auto
    qed
  qed
  then show ?thesis by (simp add: s'_def)
qed

lemma accepted_plates_fresh:
  "distinct (accepted_plates up s calls) \<and> set (accepted_plates up s calls) \<inter> present up s = {}"
proof (induction calls arbitrary: s)
  case Nil
  then show ?case by simp
next
  case (Cons c calls)
  obtain now vid plate price data where c: "c = (now, vid, plate, price, data)"
    by (cases c) auto
  obtain r s' where r: "assign_vehicle up s now vid plate price data = (r, s')"
    by (cases "assign_vehicle up s now vid plate price data") auto
  from assign_vehicle_cases [OF r] show ?case
  proof
    assume "r = None \<and> s' = s"
    then show ?thesis using Cons.IH [of s] by (simp add: c r)
  next
    assume "\<exists>k. r = Some k \<and> is_slot_available s k \<and> \<not> is_duplicate_license_plate up s plate \<and>
      s' = with_assignment s now k vid plate price data"
    then obtain k where k: "r = Some k" "is_slot_available s k"
      "\<not> is_duplicate_license_plate up s plate"
      "s' = with_assignment s now k vid plate price data" by blast
    have ps: "present up s' = insert (normalize_license_plate up plate) (present up s)"
      unfolding k(4) by (rule present_with_assignment [OF k(2)])
    have "normalize_license_plate up plate \<notin> present up s" using k(3) by (simp add: is_duplicate_present)
    then show ?thesis using Cons.IH [of s'] ps by (auto simp: c r k(1))
  qed
qed


lemma set_all_plates: "set (all_plates up s) = present up s"
proof -
  have m: "\<And>a. Some a \<in> set (slot_values s) \<longleftrightarrow>
      (\<exists>k. 0 \<le> k \<and> k < total_slots s \<and> slots s k = Some a)"
  proof
    fix a assume "Some a \<in> set (slot_values s)"
    then obtain k where "k \<in> {0 .. total_slots s - 1}" "slots s k = Some a"
      by (auto simp: slot_values_def)
    then show "\<exists>k. 0 \<le> k \<and> k < total_slots s \<and> slots s k = Some a" by auto
  next
    fix a assume "\<exists>k. 0 \<le> k \<and> k < total_slots s \<and> slots s k = Some a"
    then obtain k where "k \<in> {0 .. total_slots s - 1}" "slots s k = Some a" by auto
    then have "slots s k \<in> slots s ` {0 .. total_slots s - 1}" by (intro imageI)
    then show "Some a \<in> set (slot_values s)"
      using \<open>slots s k = Some a\<close> by (simp add: slot_values_def)
  qed
  have t: "set [plate_of_assignment up a. Some a \<leftarrow> slot_values s] =
      {n. \<exists>k a. 0 \<le> k \<and> k < total_slots s \<and> slots s k = Some a \<and> plate_of_assignment up a = n}"
    unfolding set_some_comprehension m by blast
  have p: "set [plate_of_sold up v. Some v \<leftarrow> sold_vehicles s] =
      {n. \<exists>i v. i < length (sold_vehicles s) \<and> sold_vehicles s ! i = Some v \<and> plate_of_sold up v = n}"
    unfolding set_some_comprehension by (auto simp: in_set_conv_nth)
  show ?thesis unfolding all_plates_def present_def set_append t p by blast
qed

lemma accepted_assign_fresh:
  assumes "fst (assign_vehicle up s now vid plate price data) \<noteq> None"
  shows "normalize_license_plate up plate \<notin> set (all_plates up s) \<and>
         normalize_license_plate up plate \<in>
           set (all_plates up (snd (assign_vehicle up s now vid plate price data)))"
proof -
  obtain r s' where r: "assign_vehicle up s now vid plate price data = (r, s')"
    by (cases "assign_vehicle up s now vid plate price data") auto
  from assign_vehicle_cases [OF r] assms r obtain k where
    k: "is_slot_available s k" "\<not> is_duplicate_license_plate up s plate"
       "s' = with_assignment s now k vid plate price data"
    by auto
  have "present up s' = insert (normalize_license_plate up plate) (present up s)"
    unfolding k(3) by (rule present_with_assignment [OF k(1)])
  then show ?thesis using k(2) by (simp add: r set_all_plates is_duplicate_present)
qed


section \<open>Filling the handover pool\<close>

lemma free_pool_slots_zero:
  "find_free_sold_slot 0 (sold_vehicles s) = None \<longleftrightarrow> free_pool_slots s = 0"
proof -
  have "None \<notin> set (sold_vehicles s) \<longleftrightarrow> (\<forall>x \<in> set (sold_vehicles s). x \<noteq> None)"
  proof
    assume a: "None \<notin> set (sold_vehicles s)"
    show "\<forall>x \<in> set (sold_vehicles s). x \<noteq> None"
    proof
      fix x assume "x \<in> set (sold_vehicles s)"
      with a show "x \<noteq> None" by (cases x) auto
    qed
  next
    assume "\<forall>x \<in> set (sold_vehicles s). x \<noteq> None"
    then show "None \<notin> set (sold_vehicles s)" by blast
  qed
  then show ?thesis
    by (simp add: find_free_sold_slot_None free_pool_slots_def filter_empty_conv
          del: not_None_eq)
qed

lemma free_count_update:
  assumes "i < length xs" "xs ! i = None"
  shows "length (filter (\<lambda>v. v = None) (xs[i := Some y])) =
         length (filter (\<lambda>v. v = None) xs) - 1"
proof -
  have e: "take i xs @ None # drop (Suc i) xs = xs"
    unfolding assms(2) [symmetric] by (rule id_take_nth_drop [OF assms(1), symmetric])
  have "length (filter (\<lambda>v. v = None) xs) =
      length (filter (\<lambda>v. v = None) (take i xs @ None # drop (Suc i) xs))"
    by (simp only: e)
  also have "\<dots> = length (filter (\<lambda>v. v = None) (take i xs)) + 1 +
      length (filter (\<lambda>v. v = None) (drop (Suc i) xs))"
    by simp
  finally have l: "length (filter (\<lambda>v. v = None) xs) =
      length (filter (\<lambda>v. v = None) (take i xs)) + 1 +
      length (filter (\<lambda>v. v = None) (drop (Suc i) xs))" .
  have "xs[i := Some y] = take i xs @ Some y # drop (Suc i) xs"
    using assms(1) by (rule upd_conv_take_nth_drop)
  then have "length (filter (\<lambda>v. v = None) (xs[i := Some y])) =
      length (filter (\<lambda>v. v = None) (take i xs)) +
      length (filter (\<lambda>v. v = None) (drop (Suc i) xs))"
    by simp
  then show ?thesis using l by simp
qed

lemma mark_vehicle_as_sold_pool_full:
  "find_free_sold_slot 0 (sold_vehicles s) = None \<Longrightarrow>
     mark_vehicle_as_sold up s now plate price_sold buyer = (False, s)"
  by (simp add: mark_vehicle_as_sold_def split: option.splits)

lemma mark_vehicle_as_sold_success:
  assumes "get_vehicle_by_license_plate up s plate = Some a"
    and "find_free_sold_slot 0 (sold_vehicles s) = Some i"
  shows "fst (mark_vehicle_as_sold up s now plate price_sold buyer) \<and>
         slots (snd (mark_vehicle_as_sold up s now plate price_sold buyer)) =
           (slots s)(slot_number a := None) \<and>
         total_slots (snd (mark_vehicle_as_sold up s now plate price_sold buyer)) = total_slots s \<and>
         free_pool_slots (snd (mark_vehicle_as_sold up s now plate price_sold buyer)) =
           free_pool_slots s - 1"
proof -
  from assms(2) have i: "i < length (sold_vehicles s)" "sold_vehicles s ! i = None"
    by (simp_all add: find_free_sold_slot_Some)
  show ?thesis
    using free_count_update [OF i]
    by (simp add: mark_vehicle_as_sold_def assms free_pool_slots_def)
qed

lemma lookup_after_other_sale:
  assumes wf: "well_formed up s"
    and ne: "normalize_license_plate up q \<noteq> normalize_license_plate up p"
    and q: "get_vehicle_by_license_plate up s q \<noteq> None"
  shows "get_vehicle_by_license_plate up (snd (mark_vehicle_as_sold up s now p price_sold buyer)) q \<noteq> None"
proof -
  let ?s' = "snd (mark_vehicle_as_sold up s now p price_sold buyer)"
  from q obtain b where "get_vehicle_by_license_plate up s q = Some b" by auto
  from get_vehicle_by_license_plate_Some [OF this] obtain j where
    j: "0 \<le> j" "j < total_slots s" "slots s j = Some b"
       "plate_of_assignment up b = normalize_license_plate up q" by blast
  have "slots ?s' j = Some b \<and> total_slots ?s' = total_slots s"
  proof (cases "get_vehicle_by_license_plate up s p")
    case None
    then show ?thesis using j by (simp add: mark_vehicle_as_sold_def)
  next
    case (Some a)
    from get_vehicle_by_license_plate_Some [OF Some] obtain k where
      k: "slots s k = Some a" "plate_of_assignment up a = normalize_license_plate up p" by blast
    have sn: "slot_number a = k" using well_formed_slot [OF wf k(1)] by simp
    have "j \<noteq> k" using j(3,4) k ne by auto
    show ?thesis
    proof (cases "find_free_sold_slot 0 (sold_vehicles s)")
      case None
      then show ?thesis using j by (simp add: mark_vehicle_as_sold_pool_full)
    next
      case (Some i)
      from mark_vehicle_as_sold_success [OF \<open>get_vehicle_by_license_plate up s p = Some a\<close> Some]
      show ?thesis using j \<open>j \<noteq> k\<close> sn by simp
    qed
  qed
  then have "0 \<le> j \<and> j < total_slots ?s' \<and>
      assignment_matches up (normalize_license_plate up q) (slots ?s' j)"
    using j by (simp add: assignment_matches_def plate_of_assignment_def)
  then show ?thesis unfolding get_vehicle_by_license_plate_None by blast
qed

lemma mark_all_results:
  assumes "well_formed up s"
    and "distinct (map (\<lambda>c. normalize_license_plate up (fst (snd c))) calls)"
    and "\<forall>c \<in> set calls. get_vehicle_by_license_plate up s (fst (snd c)) \<noteq> None"
  shows "fst (mark_all up s calls) =
           replicate (min (length calls) (free_pool_slots s)) True @
           replicate (length calls - free_pool_slots s) False \<and>
         free_pool_slots (snd (mark_all up s calls)) = free_pool_slots s - length calls"
  using assms
proof (induction calls arbitrary: s)
  case Nil
  then show ?case by simp
next
  case (Cons c calls)
  obtain now p price_sold buyer where c: "c = (now, p, price_sold, buyer)" by (cases c) auto
  let ?m = "mark_vehicle_as_sold up s now p price_sold buyer"
  have step: "mark_all up s (c # calls) = (fst ?m # fst (mark_all up (snd ?m) calls),
      snd (mark_all up (snd ?m) calls))"
    by (simp add: c split_beta)
  from Cons.prems(3) obtain a where a: "get_vehicle_by_license_plate up s p = Some a"
    by (auto simp: c)
  have wf': "well_formed up (snd ?m)" by (rule well_formed_mark_vehicle_as_sold [OF Cons.prems(1)])
  have d': "distinct (map (\<lambda>c. normalize_license_plate up (fst (snd c))) calls)"
    using Cons.prems(2) by simp
  have l': "\<forall>c' \<in> set calls. get_vehicle_by_license_plate up (snd ?m) (fst (snd c')) \<noteq> None"
  proof
    fix c' assume c': "c' \<in> set calls"
    then have "normalize_license_plate up (fst (snd c')) \<noteq> normalize_license_plate up p"
      using Cons.prems(2) by (force simp: c)
    moreover have "get_vehicle_by_license_plate up s (fst (snd c')) \<noteq> None"
      using Cons.prems(3) c' by simp
    ultimately show "get_vehicle_by_license_plate up (snd ?m) (fst (snd c')) \<noteq> None"
      by (rule lookup_after_other_sale [OF Cons.prems(1)])
  qed
  note IH = Cons.IH [OF wf' d' l']
  show ?case
  proof (cases "find_free_sold_slot 0 (sold_vehicles s)")
    case None
    then have m: "?m = (False, s)" by (rule mark_vehicle_as_sold_pool_full)
    have z: "free_pool_slots s = 0" using None by (simp add: free_pool_slots_zero)
    show ?thesis using IH by (simp add: step m z replicate_append_same)
  next
    case (Some i)
    from mark_vehicle_as_sold_success [OF a Some, of now price_sold buyer]
    have m: "fst ?m" "free_pool_slots (snd ?m) = free_pool_slots s - 1" by simp_all
    have pos: "0 < free_pool_slots s"
      using Some free_pool_slots_zero [of s] by (cases "free_pool_slots s") auto
    then obtain f where f: "free_pool_slots s = Suc f" by (cases "free_pool_slots s") auto
    show ?thesis using IH by (simp add: step m f)
  qed
qed


lemma free_count_clear:
  assumes "i < length xs" "xs ! i = Some v"
  shows "length (filter (\<lambda>v. v = None) (xs[i := None])) =
         length (filter (\<lambda>v. v = None) xs) + 1"
proof -
  have e: "take i xs @ Some v # drop (Suc i) xs = xs"
    unfolding assms(2) [symmetric] by (rule id_take_nth_drop [OF assms(1), symmetric])
  have "length (filter (\<lambda>v. v = None) xs) =
      length (filter (\<lambda>v. v = None) (take i xs @ Some v # drop (Suc i) xs))"
    by (simp only: e)
  also have "\<dots> = length (filter (\<lambda>v. v = None) (take i xs)) +
      length (filter (\<lambda>v. v = None) (drop (Suc i) xs))"
    by simp
  finally have l: "length (filter (\<lambda>v. v = None) xs) =
      length (filter (\<lambda>v. v = None) (take i xs)) +
      length (filter (\<lambda>v. v = None) (drop (Suc i) xs))" .
  have "xs[i := None] = take i xs @ None # drop (Suc i) xs"
    using assms(1) by (rule upd_conv_take_nth_drop)
  then have "length (filter (\<lambda>v. v = None) (xs[i := None])) =
      length (filter (\<lambda>v. v = None) (take i xs)) + 1 +
      length (filter (\<lambda>v. v = None) (drop (Suc i) xs))"
    by simp
  then show ?thesis using l by simp
qed

lemma mark_vehicle_as_sold_succeeds_iff:
  assumes "get_vehicle_by_license_plate up s plate \<noteq> None"
  shows "fst (mark_vehicle_as_sold up s now plate price_sold buyer) \<longleftrightarrow>
         None \<in> set (sold_vehicles s)"
proof -
  from assms obtain a where a: "get_vehicle_by_license_plate up s plate = Some a" by auto
  show ?thesis
  proof (cases "find_free_sold_slot 0 (sold_vehicles s)")
    case None
    then show ?thesis
      using mark_vehicle_as_sold_pool_full [OF None, of up now plate price_sold buyer]
      by (simp add: find_free_sold_slot_None)
  next
    case (Some i)
    then have "None \<in> set (sold_vehicles s)"
      using find_free_sold_slot_None [of 0 "sold_vehicles s"] by auto
    then show ?thesis
      using mark_vehicle_as_sold_success [OF a Some, of now price_sold buyer] by simp
  qed
qed

lemma mark_vehicle_as_sold_takes_one:
  assumes "fst (mark_vehicle_as_sold up s now plate price_sold buyer)"
  shows "free_pool_slots (snd (mark_vehicle_as_sold up s now plate price_sold buyer)) + 1 =
         free_pool_slots s"
proof (cases "get_vehicle_by_license_plate up s plate")
  case None
  then show ?thesis using assms by (simp add: mark_vehicle_as_sold_def)
next
  case (Some a)
  show ?thesis
  proof (cases "find_free_sold_slot 0 (sold_vehicles s)")
    case None
    then show ?thesis using assms by (simp add: mark_vehicle_as_sold_pool_full)
  next
    case fi: (Some i)
    have "free_pool_slots s \<noteq> 0" using fi free_pool_slots_zero [of s] by simp
    then show ?thesis
      using mark_vehicle_as_sold_success [OF Some fi, of now price_sold buyer] by simp
  qed
qed

lemma complete_vehicle_handover_frees_one:
  assumes "fst (complete_vehicle_handover up s plate)"
  shows "free_pool_slots (snd (complete_vehicle_handover up s plate)) = free_pool_slots s + 1"
proof (cases "find_sold_index up (normalize_license_plate up plate) 0 (sold_vehicles s)")
  case None
  then show ?thesis using assms by (simp add: complete_vehicle_handover_def)
next
  case (Some i)
  then have i: "i < length (sold_vehicles s)"
    "sold_matches up (normalize_license_plate up plate) (sold_vehicles s ! i)"
    by (simp_all add: find_sold_index_Some)
  from i(2) obtain v where v: "sold_vehicles s ! i = Some v"
    by (auto simp: sold_matches_def split: option.splits)
  show ?thesis
    using free_count_clear [OF i(1) v]
    by (simp add: complete_vehicle_handover_def Some free_pool_slots_def)
qed

lemma complete_vehicle_handover_failed:
  "\<not> fst (complete_vehicle_handover up s plate) \<Longrightarrow>
     snd (complete_vehicle_handover up s plate) = s"
  by (simp add: complete_vehicle_handover_def split: option.splits)

lemma eleven_sales_fill_pool:
  assumes "well_formed up s"
    and "sold_vehicles s = replicate SOLD_VEHICLE_SLOTS None"
    and "length calls = 11"
    and "distinct (map (\<lambda>c. normalize_license_plate up (fst (snd c))) calls)"
    and "\<forall>c \<in> set calls. get_vehicle_by_license_plate up s (fst (snd c)) \<noteq> None"
  shows "fst (mark_all up s calls) = replicate 10 True @ [False] \<and>
         None \<notin> set (sold_vehicles (snd (mark_all up s calls)))"
proof -
  have f: "free_pool_slots s = 10"
    by (simp add: free_pool_slots_def assms(2) SOLD_VEHICLE_SLOTS_def)
  from mark_all_results [OF assms(1,4,5)]
  have r: "fst (mark_all up s calls) = replicate 10 True @ [False]"
    and z: "free_pool_slots (snd (mark_all up s calls)) = 0"
    by (simp_all add: f assms(3))
  from z have "None \<notin> set (sold_vehicles (snd (mark_all up s calls)))"
    by (simp add: free_pool_slots_zero [symmetric] find_free_sold_slot_None)
  with r show ?thesis by simp
qed


section \<open>Claims about the tier strategy\<close>

text \<open>
  Claim C3. For every price, \<open>get_slot_range\<close> of the default strategy returns \<open>(0, 50)\<close>
  when the price is at least 3000, \<open>(50, 100)\<close> when it is at least 1500 and below 3000,
  and \<open>(100, 199)\<close> when it is below 1500; the boundary prices 3000 and 1500 belong to the
  higher tier. The function is total and depends on the price alone.
\<close>

theorem default_get_slot_range_tiers:
  "(float_ge price (Finite 3000) \<longrightarrow> get_slot_range default_strategy price = (0, 50)) \<and>
   (float_ge price (Finite 1500) \<and> float_lt price (Finite 3000) \<longrightarrow>
      get_slot_range default_strategy price = (50, 100)) \<and>
   (float_lt price (Finite 1500) \<longrightarrow> get_slot_range default_strategy price = (100, 199)) \<and>
   get_slot_range default_strategy (Finite 3000) = (0, 50) \<and>
   get_slot_range default_strategy (Finite 1500) = (50, 100)"
  by (cases price) (simp_all add: get_slot_range_def default_strategy_def)

theorem default_get_slot_range_tiers_witness:
  "float_ge (Finite 3500) (Finite 3000) \<and>
   get_slot_range default_strategy (Finite 3500) = (0, 50) \<and>
   float_ge (Finite 2000) (Finite 1500) \<and> float_lt (Finite 2000) (Finite 3000) \<and>
   get_slot_range default_strategy (Finite 2000) = (50, 100) \<and>
   float_lt (Finite 1499) (Finite 1500) \<and>
   get_slot_range default_strategy (Finite 1499) = (100, 199)"
  using default_get_slot_range_tiers [of "Finite 3500"]
    default_get_slot_range_tiers [of "Finite 2000"]
    default_get_slot_range_tiers [of "Finite 1499"]
  by simp

section \<open>Claims about assignment\<close>

text \<open>
  Claim C2. For every state, \<open>assign_vehicle\<close> computes exactly the algorithm of the
  specification, \<open>assign_spec\<close>: a duplicate plate is rejected first; without a strategy
  the vehicle goes to the lowest free index of the table; with a strategy it goes to the
  lowest free index of the strategy's range for the price, otherwise to the highest free index
  of the whole table, and the call is rejected only when no index is free. In
  \<open>assign_spec\<close> the lowest and the highest free index are the minimum and the maximum of the
  set of free indices, not a scan.
\<close>

theorem assign_vehicle_follows_spec_algorithm:
  "assign_vehicle up s now vid plate price data = assign_spec up s now vid plate price data"
proof -
  have "find (is_slot_available s) [0 .. total_slots s - 1] = lowest_free s 0 (total_slots s - 1)"
    using get_available_slot_in_range_lowest [of s 0 "total_slots s - 1"]
    by (simp add: get_available_slot_in_range_def)
  then show ?thesis
    by (simp add: assign_vehicle_unfold assign_spec_def get_available_slot_in_range_lowest
          get_highest_available_slot_highest split: option.split)
qed

text \<open>
  Claim C7. For every state and every plate that is not a duplicate, \<open>assign_vehicle\<close> is
  rejected (returns \<^verbatim>\<open>None\<close>) if and only if no index in \<open>[0, total_slots)\<close> is free; so
  whenever some slot is free the call succeeds.
\<close>

theorem assign_vehicle_rejects_iff_table_full:
  assumes "\<not> is_duplicate_license_plate up s plate"
  shows "fst (assign_vehicle up s now vid plate price data) = None \<longleftrightarrow>
         (\<forall>k. 0 \<le> k \<and> k < total_slots s \<longrightarrow> slots s k \<noteq> None)"
  using assign_vehicle_None_iff [OF assms, of now vid price data]
  by (auto simp: is_slot_available_iff)

theorem assign_vehicle_rejects_iff_table_full_witness:
  "\<not> is_duplicate_license_plate ascii_upper (init 2 None) ''AB-123-C'' \<and>
   fst (assign_vehicle ascii_upper (init 2 None) 0 ''V1'' ''AB-123-C'' (Finite 3500) None) \<noteq> None \<and>
   \<not> is_duplicate_license_plate ascii_upper (init 0 None) ''AB-123-C'' \<and>
   fst (assign_vehicle ascii_upper (init 0 None) 0 ''V1'' ''AB-123-C'' (Finite 3500) None) = None"
proof -
  have d2: "\<not> is_duplicate_license_plate ascii_upper (init 2 None) ''AB-123-C''"
    by (simp add: is_duplicate_license_plate_iff init_def)
  have d0: "\<not> is_duplicate_license_plate ascii_upper (init 0 None) ''AB-123-C''"
    by (simp add: is_duplicate_license_plate_iff init_def)
  have free: "\<not> (\<forall>k. 0 \<le> k \<and> k < total_slots (init 2 None) \<longrightarrow> slots (init 2 None) k \<noteq> None)"
    by (auto simp: init_def intro: exI [of _ 0])
  have full: "\<forall>k. 0 \<le> k \<and> k < total_slots (init 0 None) \<longrightarrow> slots (init 0 None) k \<noteq> None"
    by (simp add: init_def)
  show ?thesis
    using assign_vehicle_rejects_iff_table_full [OF d2, of 0 "''V1''" "Finite 3500" None]
      assign_vehicle_rejects_iff_table_full [OF d0, of 0 "''V1''" "Finite 3500" None]
      d2 d0 free full
    by blast
qed


text \<open>
  Claim C5. For every state and every input, a rejected \<open>assign_vehicle\<close> (result
  \<^verbatim>\<open>None\<close>) and a rejected \<open>mark_vehicle_as_sold\<close> (result \<^verbatim>\<open>False\<close>) return the manager
  they were given: every slot of the table and every entry of the pool is as before.
\<close>

theorem rejected_calls_leave_state_unchanged:
  "(fst (assign_vehicle up s now vid plate price data) = None \<longrightarrow>
      snd (assign_vehicle up s now vid plate price data) = s) \<and>
   (\<not> fst (mark_vehicle_as_sold up s now plate' price_sold buyer) \<longrightarrow>
      snd (mark_vehicle_as_sold up s now plate' price_sold buyer) = s)"
proof
  show "fst (assign_vehicle up s now vid plate price data) = None \<longrightarrow>
      snd (assign_vehicle up s now vid plate price data) = s"
    using assign_vehicle_cases [of up s now vid plate price data]
    by (cases "assign_vehicle up s now vid plate price data") auto
  show "\<not> fst (mark_vehicle_as_sold up s now plate' price_sold buyer) \<longrightarrow>
      snd (mark_vehicle_as_sold up s now plate' price_sold buyer) = s"
    by (simp add: mark_vehicle_as_sold_def Let_def split: option.splits)
qed

theorem rejected_calls_leave_state_unchanged_witness:
  "fst (assign_vehicle ascii_upper (init 0 None) 0 ''V1'' ''AB-123-C'' (Finite 3500) None) = None \<and>
   snd (assign_vehicle ascii_upper (init 0 None) 0 ''V1'' ''AB-123-C'' (Finite 3500) None) = init 0 None \<and>
   \<not> fst (mark_vehicle_as_sold ascii_upper (init 0 None) 0 ''AB-123-C'' None None) \<and>
   snd (mark_vehicle_as_sold ascii_upper (init 0 None) 0 ''AB-123-C'' None None) = init 0 None"
proof -
  have a: "fst (assign_vehicle ascii_upper (init 0 None) 0 ''V1'' ''AB-123-C'' (Finite 3500) None) = None"
    by (simp add: assign_vehicle_unfold is_duplicate_license_plate_iff init_def)
  have m: "\<not> fst (mark_vehicle_as_sold ascii_upper (init 0 None) 0 ''AB-123-C'' None None)"
    by (simp add: mark_vehicle_as_sold_def get_vehicle_by_license_plate_def slot_values_def
          init_def)
  show ?thesis
    using rejected_calls_leave_state_unchanged
      [of ascii_upper "init 0 None" 0 "''V1''" "''AB-123-C''" "Finite 3500" None "''AB-123-C''" None None] a m
    by blast
qed


text \<open>
  Claim C6. For every state with a strategy in which no index of the tier range of the price
  is available while some index of the table is, \<open>assign_vehicle\<close> with a plate that is not
  a duplicate succeeds, writes the assignment at the index it returns, and that index is the
  highest free index of the table, the one the descending scan
  \<open>get_highest_available_slot\<close> finds.
\<close>

theorem assign_vehicle_overflow_highest:
  assumes "assignment_strategy s = Some f"
    and "\<not> is_duplicate_license_plate up s plate"
    and "\<forall>k. fst (f price) \<le> k \<and> k \<le> snd (f price) \<longrightarrow> \<not> is_slot_available s k"
    and "is_slot_available s j"
  shows "\<exists>h. assign_vehicle up s now vid plate price data =
                (Some h, with_assignment s now h vid plate price data) \<and>
             get_highest_available_slot s = Some h \<and>
             is_slot_available s h \<and> (\<forall>i. is_slot_available s i \<longrightarrow> i \<le> h)"
proof -
  have rng: "get_available_slot_in_range s (fst (f price)) (snd (f price)) = None"
    using assms(3) by (auto simp: get_available_slot_in_range_def find_upto_None)
  have "get_highest_available_slot s \<noteq> None"
    using assms(4)
    by (auto simp: get_highest_available_slot_def find_rev_upto_None is_slot_available_iff)
  then obtain h where h: "get_highest_available_slot s = Some h" by auto
  then have hi: "is_slot_available s h" "\<forall>i. is_slot_available s i \<longrightarrow> i \<le> h"
    unfolding get_highest_available_slot_def find_rev_upto_Some
    by (auto simp: is_slot_available_iff not_less [symmetric])
  show ?thesis using assms(1,2) rng h hi by (simp add: assign_vehicle_unfold)
qed


theorem assign_vehicle_overflow_highest_witness:
  "assignment_strategy single_tier_manager = Some (\<lambda>_. (0, 0)) \<and>
   \<not> is_duplicate_license_plate ascii_upper single_tier_manager ''CD-456-E'' \<and>
   \<not> is_slot_available single_tier_manager 0 \<and>
   is_slot_available single_tier_manager 1 \<and>
   is_slot_available single_tier_manager 2 \<and>
   fst (assign_vehicle ascii_upper single_tier_manager 1 ''V2'' ''CD-456-E'' (Finite 3600) None) = Some 2"
proof -
  have st: "assignment_strategy single_tier_manager = Some (\<lambda>_. (0, 0))"
    by (simp add: single_tier_manager_def with_assignment_def init_def)
  have av: "\<not> is_slot_available single_tier_manager 0" "is_slot_available single_tier_manager 1"
    "is_slot_available single_tier_manager 2" "\<not> is_slot_available single_tier_manager 3"
    by (simp_all add: single_tier_manager_def with_assignment_def init_def is_slot_available_def)
  have n1: "normalize_license_plate ascii_upper ''AB-123-C'' = ''AB123C''" by code_simp
  have n2: "normalize_license_plate ascii_upper ''CD-456-E'' = ''CD456E''" by code_simp
  have nd: "\<not> is_duplicate_license_plate ascii_upper single_tier_manager ''CD-456-E''"
    by (auto simp: is_duplicate_license_plate_iff single_tier_manager_def with_assignment_def
          init_def plate_of_assignment_def n1 n2 SOLD_VEHICLE_SLOTS_def)
  have rng: "\<forall>k. fst ((0::int), (0::int)) \<le> k \<and> k \<le> snd ((0::int), (0::int)) \<longrightarrow>
      \<not> is_slot_available single_tier_manager k"
    using av(1) by auto
  obtain h where h: "assign_vehicle ascii_upper single_tier_manager 1 ''V2'' ''CD-456-E'' (Finite 3600) None =
      (Some h, with_assignment single_tier_manager 1 h ''V2'' ''CD-456-E'' (Finite 3600) None)"
    "is_slot_available single_tier_manager h"
    "\<forall>i. is_slot_available single_tier_manager i \<longrightarrow> i \<le> h"
    using assign_vehicle_overflow_highest
      [where price = "Finite 3600" and now = 1 and vid = "''V2''" and data = None,
        OF st nd rng av(2)]
    by blast
  have "2 \<le> h" using h(3) av(3) by blast
  moreover have "h < 3" using h(2) by (simp add: is_slot_available_iff single_tier_manager_def
        with_assignment_def init_def)
  ultimately have "h = 2" by simp
  then show ?thesis using st nd av h(1) by simp
qed

text \<open>
  Claim C9. For every state and every plate that is not a duplicate,
  \<open>add_vehicle_manually\<close> with a preferred slot places the vehicle at exactly that index when
  the index is available, and when the preferred index is occupied or out of range it is the
  automatic policy \<open>assign_vehicle\<close>; when no vehicle id is supplied, the assignment stored by
  a successful call has the id \<^verbatim>\<open>MANUAL-\<close> followed by the license plate.
\<close>

theorem add_vehicle_manually_preferred_slot:
  assumes "\<not> is_duplicate_license_plate up s plate"
  shows "(is_slot_available s p \<longrightarrow>
            add_vehicle_manually up s now plate price vo (Some p) data =
              (Some p, with_assignment s now p
                 (case vo of None \<Rightarrow> ''MANUAL-'' @ plate | Some v \<Rightarrow> v) plate price data)) \<and>
         (\<not> is_slot_available s p \<longrightarrow>
            add_vehicle_manually up s now plate price vo (Some p) data =
              assign_vehicle up s now
                (case vo of None \<Rightarrow> ''MANUAL-'' @ plate | Some v \<Rightarrow> v) plate price data) \<and>
         (\<forall>k s'. add_vehicle_manually up s now plate price None pref data = (Some k, s') \<longrightarrow>
            (\<exists>a. slots s' k = Some a \<and>
               slot_assignment.vehicle_id a = ''MANUAL-'' @ plate \<and>
               slot_assignment.license_plate a = plate))"
proof (intro conjI impI allI)
  assume "is_slot_available s p"
  then show "add_vehicle_manually up s now plate price vo (Some p) data =
      (Some p, with_assignment s now p
         (case vo of None \<Rightarrow> ''MANUAL-'' @ plate | Some v \<Rightarrow> v) plate price data)"
    using assms by (simp add: add_vehicle_manually_def assign_vehicle_to_slot_available)
next
  assume "\<not> is_slot_available s p"
  then show "add_vehicle_manually up s now plate price vo (Some p) data =
      assign_vehicle up s now (case vo of None \<Rightarrow> ''MANUAL-'' @ plate | Some v \<Rightarrow> v) plate price data"
    using assms by (simp add: add_vehicle_manually_def)
next
  fix k s'
  assume "add_vehicle_manually up s now plate price None pref data = (Some k, s')"
  from add_vehicle_manually_cases [OF this]
  have "s' = with_assignment s now k (''MANUAL-'' @ plate) plate price data" by simp
  then show "\<exists>a. slots s' k = Some a \<and>
       slot_assignment.vehicle_id a = ''MANUAL-'' @ plate \<and>
       slot_assignment.license_plate a = plate"
    by (simp add: with_assignment_def)
qed

theorem add_vehicle_manually_preferred_slot_witness:
  "\<not> is_duplicate_license_plate ascii_upper single_tier_manager ''CD-456-E'' \<and>
   is_slot_available single_tier_manager 1 \<and>
   add_vehicle_manually ascii_upper single_tier_manager 5 ''CD-456-E'' (Finite 900) None (Some 1) None =
     (Some 1, with_assignment single_tier_manager 5 1 ''MANUAL-CD-456-E'' ''CD-456-E''
                (Finite 900) None) \<and>
   \<not> is_slot_available single_tier_manager 0 \<and>
   add_vehicle_manually ascii_upper single_tier_manager 5 ''CD-456-E'' (Finite 900) None (Some 0) None =
     assign_vehicle ascii_upper single_tier_manager 5 ''MANUAL-CD-456-E'' ''CD-456-E'' (Finite 900) None \<and>
   \<not> is_slot_available single_tier_manager 7 \<and>
   add_vehicle_manually ascii_upper single_tier_manager 5 ''CD-456-E'' (Finite 900) None (Some 7) None =
     assign_vehicle ascii_upper single_tier_manager 5 ''MANUAL-CD-456-E'' ''CD-456-E'' (Finite 900) None"
proof -
  have av: "\<not> is_slot_available single_tier_manager 0" "is_slot_available single_tier_manager 1"
    "\<not> is_slot_available single_tier_manager 7"
    by (simp_all add: single_tier_manager_def with_assignment_def init_def is_slot_available_def)
  have n1: "normalize_license_plate ascii_upper ''AB-123-C'' = ''AB123C''" by code_simp
  have n2: "normalize_license_plate ascii_upper ''CD-456-E'' = ''CD456E''" by code_simp
  have nd: "\<not> is_duplicate_license_plate ascii_upper single_tier_manager ''CD-456-E''"
    by (auto simp: is_duplicate_license_plate_iff single_tier_manager_def with_assignment_def
          init_def plate_of_assignment_def n1 n2 SOLD_VEHICLE_SLOTS_def)
  show ?thesis
    using add_vehicle_manually_preferred_slot [OF nd, of 1 5 "Finite 900" None None]
      add_vehicle_manually_preferred_slot [OF nd, of 0 5 "Finite 900" None None]
      add_vehicle_manually_preferred_slot [OF nd, of 7 5 "Finite 900" None None]
      av nd
    by simp
qed


section \<open>Claims about the handover pool\<close>

text \<open>
  Claim C10. For every state and every plate, \<open>complete_vehicle_handover\<close> leaves the slot
  table, the capacity and the strategy untouched and keeps the length of the pool; when it
  returns true it has cleared the first pool index whose record matches the normalised plate
  and every other pool index holds what it held; when it returns false no record matches and
  the manager is unchanged.
\<close>

theorem complete_vehicle_handover_frame:
  assumes "complete_vehicle_handover up s plate = (r, s')"
  shows "slots s' = slots s \<and> total_slots s' = total_slots s \<and>
         assignment_strategy s' = assignment_strategy s \<and>
         length (sold_vehicles s') = length (sold_vehicles s) \<and>
         (r \<longrightarrow> (\<exists>i < length (sold_vehicles s).
                  sold_matches up (normalize_license_plate up plate) (sold_vehicles s ! i) \<and>
                  (\<forall>j < i. \<not> sold_matches up (normalize_license_plate up plate) (sold_vehicles s ! j)) \<and>
                  sold_vehicles s' ! i = None \<and>
                  (\<forall>j < length (sold_vehicles s). j \<noteq> i \<longrightarrow>
                     sold_vehicles s' ! j = sold_vehicles s ! j))) \<and>
         (\<not> r \<longrightarrow> s' = s \<and>
                  (\<forall>v \<in> set (sold_vehicles s). \<not> sold_matches up (normalize_license_plate up plate) v))"
proof (cases "find_sold_index up (normalize_license_plate up plate) 0 (sold_vehicles s)")
  case None
  then have "\<not> r" "s' = s" using assms by (simp_all add: complete_vehicle_handover_def)
  then show ?thesis using None by (simp add: find_sold_index_None)
next
  case (Some i)
  then have r: "r" and s': "s' = s\<lparr>sold_vehicles := (sold_vehicles s)[i := None]\<rparr>"
    using assms by (auto simp: complete_vehicle_handover_def)
  from Some have i: "i < length (sold_vehicles s)"
    "sold_matches up (normalize_license_plate up plate) (sold_vehicles s ! i)"
    "\<forall>j < i. \<not> sold_matches up (normalize_license_plate up plate) (sold_vehicles s ! j)"
    by (simp_all add: find_sold_index_Some)
  show ?thesis using r i by (auto simp: s')
qed

theorem complete_vehicle_handover_frame_witness:
  "fst (complete_vehicle_handover ascii_upper handover_example_manager ''ab 123 c'') \<and>
   slots (snd (complete_vehicle_handover ascii_upper handover_example_manager ''ab 123 c'')) =
     slots handover_example_manager \<and>
   sold_vehicles (snd (complete_vehicle_handover ascii_upper handover_example_manager ''ab 123 c'')) ! 0 = None \<and>
   sold_vehicles (snd (complete_vehicle_handover ascii_upper handover_example_manager ''ab 123 c'')) ! 1 =
     sold_vehicles handover_example_manager ! 1 \<and>
   \<not> fst (complete_vehicle_handover ascii_upper handover_example_manager ''CD-456-E'') \<and>
   snd (complete_vehicle_handover ascii_upper handover_example_manager ''CD-456-E'') =
     handover_example_manager"
proof -
  let ?c = "complete_vehicle_handover ascii_upper handover_example_manager ''ab 123 c''"
  let ?d = "complete_vehicle_handover ascii_upper handover_example_manager ''CD-456-E''"
  have m0: "sold_matches ascii_upper (normalize_license_plate ascii_upper ''ab 123 c'')
      (sold_vehicles handover_example_manager ! 0)"
    by (simp add: handover_example_manager_def sold_matches_def normalize_AB_123_C
          normalize_ab_123_c)
  have rc: "fst ?c"
    by (simp add: complete_vehicle_handover_def handover_example_manager_def sold_matches_def
          normalize_AB_123_C normalize_ab_123_c)
  have "find_sold_index ascii_upper (normalize_license_plate ascii_upper ''CD-456-E'') 0
      (sold_vehicles handover_example_manager) = None"
    unfolding find_sold_index_None
    by (simp add: handover_example_manager_def sold_matches_def normalize_AB_123_C
          normalize_CD_456_E)
  then have rd: "\<not> fst ?d"
    by (simp add: complete_vehicle_handover_def)
  have len: "length (sold_vehicles handover_example_manager) = 10"
    by (simp add: handover_example_manager_def)
  have ec: "?c = (True, snd ?c)" using rc by (simp add: prod_eq_iff)
  have ed: "?d = (False, snd ?d)" using rd by (simp add: prod_eq_iff)
  from complete_vehicle_handover_frame [OF ec]
  obtain i where i: "slots (snd ?c) = slots handover_example_manager"
    "\<forall>j < i. \<not> sold_matches ascii_upper (normalize_license_plate ascii_upper ''ab 123 c'')
        (sold_vehicles handover_example_manager ! j)"
    "sold_vehicles (snd ?c) ! i = None"
    "\<forall>j < length (sold_vehicles handover_example_manager). j \<noteq> i \<longrightarrow>
        sold_vehicles (snd ?c) ! j = sold_vehicles handover_example_manager ! j"
    by blast
  have "i = 0" using i(2) m0 by (cases "i = 0") auto
  moreover have "snd ?d = handover_example_manager"
    using complete_vehicle_handover_frame [OF ed] by blast
  ultimately show ?thesis using rc rd i len by simp
qed

text \<open>
  Claim C4. For every well-formed state in which slot \<open>k\<close> holds an assignment whose
  normalised plate is that of the given plate, and whose pool has a free index,
  \<open>mark_vehicle_as_sold\<close> succeeds and moves the vehicle in one step: the first free pool
  index receives a record with \<open>original_slot = k\<close> and the vehicle id, license plate and
  purchase price of the assignment, slot \<open>k\<close> becomes empty, a lookup of the plate in the
  resulting state finds nothing, and the pending list has exactly one record with that
  normalised plate, the new one.
\<close>

theorem mark_vehicle_as_sold_moves_vehicle:
  assumes wf: "well_formed up s"
    and k: "slots s k = Some a"
    and p: "normalize_license_plate up (slot_assignment.license_plate a) = normalize_license_plate up plate"
    and free: "\<exists>i < length (sold_vehicles s). sold_vehicles s ! i = None"
  shows "\<exists>i sold. i < length (sold_vehicles s) \<and> sold_vehicles s ! i = None \<and>
           (\<forall>j < i. sold_vehicles s ! j \<noteq> None) \<and>
           sold = \<lparr>sold_slot = ''v'' @ str_nat (i + 1),
                   sold_vehicle.vehicle_id = slot_assignment.vehicle_id a,
                   sold_vehicle.license_plate = slot_assignment.license_plate a,
                   sold_vehicle.purchase_price = slot_assignment.purchase_price a,
                   original_slot = k, sold_at = now, sold_price = price_sold,
                   buyer_info = buyer\<rparr> \<and>
           mark_vehicle_as_sold up s now plate price_sold buyer =
             (True, s\<lparr>sold_vehicles := (sold_vehicles s)[i := Some sold],
                       slots := (slots s)(k := None)\<rparr>) \<and>
           get_vehicle_by_license_plate up
             (snd (mark_vehicle_as_sold up s now plate price_sold buyer)) plate = None \<and>
           filter (\<lambda>v. normalize_license_plate up (sold_vehicle.license_plate v) =
                         normalize_license_plate up plate)
             (get_sold_vehicles (snd (mark_vehicle_as_sold up s now plate price_sold buyer))) = [sold]"
proof -
  let ?n = "normalize_license_plate up plate"
  have pa: "plate_of_assignment up a = ?n" using p by (simp add: plate_of_assignment_def)
  have look: "get_vehicle_by_license_plate up s plate = Some a"
    by (rule get_vehicle_by_license_plate_unique [OF wf k pa])
  have sn: "slot_number a = k" using well_formed_slot [OF wf k] by simp
  from free have "find_free_sold_slot 0 (sold_vehicles s) \<noteq> None"
    by (auto simp: find_free_sold_slot_None in_set_conv_nth)
  then obtain i where fi: "find_free_sold_slot 0 (sold_vehicles s) = Some i" by auto
  then have i: "i < length (sold_vehicles s)" "sold_vehicles s ! i = None"
    "\<forall>j < i. sold_vehicles s ! j \<noteq> None"
    by (simp_all add: find_free_sold_slot_Some)
  define sold where "sold = \<lparr>sold_slot = ''v'' @ str_nat (i + 1),
                   sold_vehicle.vehicle_id = slot_assignment.vehicle_id a,
                   sold_vehicle.license_plate = slot_assignment.license_plate a,
                   sold_vehicle.purchase_price = slot_assignment.purchase_price a,
                   original_slot = k, sold_at = now, sold_price = price_sold,
                   buyer_info = buyer\<rparr>"
  define s' where "s' = s\<lparr>sold_vehicles := (sold_vehicles s)[i := Some sold],
                       slots := (slots s)(k := None)\<rparr>"
  have res: "mark_vehicle_as_sold up s now plate price_sold buyer = (True, s')"
    by (simp add: mark_vehicle_as_sold_def look fi sn s'_def sold_def)
  have gone: "get_vehicle_by_license_plate up s' plate = None"
    unfolding get_vehicle_by_license_plate_None
  proof (intro allI impI)
    fix j assume "0 \<le> j \<and> j < total_slots s'"
    show "\<not> assignment_matches up ?n (slots s' j)"
    proof
      assume m: "assignment_matches up ?n (slots s' j)"
      then obtain b where b: "slots s' j = Some b" "plate_of_assignment up b = ?n"
        by (auto simp: assignment_matches_def plate_of_assignment_def split: option.splits)
      then have "j \<noteq> k" "slots s j = Some b" by (auto simp: s'_def split: if_splits)
      then show False using well_formed_table_unique [OF wf _ k, of j b] b(2) pa by simp
    qed
  qed
  have others: "\<forall>v. Some v \<in> set (sold_vehicles s) \<longrightarrow> plate_of_sold up v \<noteq> ?n"
  proof (intro allI impI)
    fix v assume "Some v \<in> set (sold_vehicles s)"
    then obtain j where "j < length (sold_vehicles s)" "sold_vehicles s ! j = Some v"
      by (auto simp: in_set_conv_nth)
    from well_formed_table_pool [OF wf k this] show "plate_of_sold up v \<noteq> ?n" using pa by simp
  qed
  have pool': "sold_vehicles s' =
      take i (sold_vehicles s) @ Some sold # drop (Suc i) (sold_vehicles s)"
    using i(1) by (simp add: s'_def upd_conv_take_nth_drop)
  have t: "filter (\<lambda>v. plate_of_sold up v = ?n) [v. Some v \<leftarrow> take i (sold_vehicles s)] = []"
    using others by (intro filter_sold_none) (auto dest: in_set_takeD)
  have d: "filter (\<lambda>v. plate_of_sold up v = ?n) [v. Some v \<leftarrow> drop (Suc i) (sold_vehicles s)] = []"
    using others by (intro filter_sold_none) (auto dest: in_set_dropD)
  have ps: "plate_of_sold up sold = ?n" using p by (simp add: plate_of_sold_def sold_def)
  have "filter (\<lambda>v. plate_of_sold up v = ?n) (get_sold_vehicles s') = [sold]"
    unfolding get_sold_vehicles_def pool' sold_comprehension_append filter_append t
    using d ps by simp
  then have pending: "filter (\<lambda>v. normalize_license_plate up (sold_vehicle.license_plate v) = ?n)
      (get_sold_vehicles s') = [sold]"
    by (simp add: plate_of_sold_def)
  have unf: "s' = s\<lparr>sold_vehicles := (sold_vehicles s)[i := Some sold],
      slots := (slots s)(k := None)\<rparr>"
    by (simp add: s'_def)
  show ?thesis
    apply (rule exI [of _ i])
    apply (rule exI [of _ sold])
    unfolding res snd_conv
    using i gone pending sold_def unf by simp
qed

theorem mark_vehicle_as_sold_moves_vehicle_witness:
  "slots single_tier_manager 0 \<noteq> None \<and>
   sold_vehicles single_tier_manager ! 0 = None \<and>
   fst (mark_vehicle_as_sold ascii_upper single_tier_manager 9 ''ab 123 c'' None None) \<and>
   slots (snd (mark_vehicle_as_sold ascii_upper single_tier_manager 9 ''ab 123 c'' None None)) 0 = None \<and>
   get_vehicle_by_license_plate ascii_upper
     (snd (mark_vehicle_as_sold ascii_upper single_tier_manager 9 ''ab 123 c'' None None)) ''ab 123 c'' = None \<and>
   map original_slot (filter (\<lambda>v. normalize_license_plate ascii_upper (sold_vehicle.license_plate v) =
                                    normalize_license_plate ascii_upper ''ab 123 c'')
     (get_sold_vehicles (snd (mark_vehicle_as_sold ascii_upper single_tier_manager 9 ''ab 123 c'' None None))))
     = [0]"
proof -
  define a where "a = \<lparr>slot_number = 0, slot_assignment.vehicle_id = ''V1'',
    slot_assignment.license_plate = ''AB-123-C'', slot_assignment.purchase_price = Finite 3500,
    assigned_at = 0, vehicle_data = None\<rparr>"
  have k: "slots single_tier_manager 0 = Some a"
    by (simp add: single_tier_manager_def with_assignment_def a_def)
  have p: "normalize_license_plate ascii_upper (slot_assignment.license_plate a) =
      normalize_license_plate ascii_upper ''ab 123 c''"
    by (simp add: a_def normalize_AB_123_C normalize_ab_123_c)
  have pool: "sold_vehicles single_tier_manager = replicate 10 None"
    by (simp add: single_tier_manager_def with_assignment_def init_def SOLD_VEHICLE_SLOTS_def)
  have free: "\<exists>i < length (sold_vehicles single_tier_manager).
      sold_vehicles single_tier_manager ! i = None"
    by (rule exI [of _ 0]) (simp add: pool)
  from mark_vehicle_as_sold_moves_vehicle
    [OF well_formed_single_tier_manager k p free, of 9 None None]
  obtain i sold where r:
    "sold = \<lparr>sold_slot = ''v'' @ str_nat (i + 1),
       sold_vehicle.vehicle_id = slot_assignment.vehicle_id a,
       sold_vehicle.license_plate = slot_assignment.license_plate a,
       sold_vehicle.purchase_price = slot_assignment.purchase_price a,
       original_slot = 0, sold_at = 9, sold_price = None, buyer_info = None\<rparr>"
    "mark_vehicle_as_sold ascii_upper single_tier_manager 9 ''ab 123 c'' None None =
       (True, single_tier_manager\<lparr>sold_vehicles :=
           (sold_vehicles single_tier_manager)[i := Some sold],
         slots := (slots single_tier_manager)(0 := None)\<rparr>)"
    "get_vehicle_by_license_plate ascii_upper
       (snd (mark_vehicle_as_sold ascii_upper single_tier_manager 9 ''ab 123 c'' None None)) ''ab 123 c'' = None"
    "filter (\<lambda>v. normalize_license_plate ascii_upper (sold_vehicle.license_plate v) =
                  normalize_license_plate ascii_upper ''ab 123 c'')
       (get_sold_vehicles (snd (mark_vehicle_as_sold ascii_upper single_tier_manager 9 ''ab 123 c'' None None)))
     = [sold]"
    by blast
  have os: "original_slot sold = 0" by (simp add: r(1))
  show ?thesis using k os r(3,4) by (simp add: r(2) pool)
qed


section \<open>Claims about sequences of operations\<close>

text \<open>
  Claim C1, as amended. For every case mapping \<open>up\<close> and every sequence of the operations
  \<open>assign_vehicle\<close>, \<open>add_vehicle_manually\<close>, \<open>mark_vehicle_as_sold\<close>,
  \<open>complete_vehicle_handover\<close>, \<open>release_slot\<close> and \<open>release_by_license_plate\<close> applied to
  a freshly constructed manager (any capacity, any strategy), the normalised plates of the
  entries of the slot table and the handover pool together are pairwise distinct. In every
  state an accepted \<open>assign_vehicle\<close> call has a normalised plate that no entry of the table
  or the pool had before the call, and that an entry has after it. In every sequence of
  \<open>assign_vehicle\<close> calls alone on a fresh manager the accepted calls have pairwise distinct
  normalised plates.
\<close>

theorem one_entry_per_normalized_plate:
  "distinct (all_plates up (run up (init n strategy) ops)) \<and>
   (fst (assign_vehicle up s now vid plate price data) \<noteq> None \<longrightarrow>
      normalize_license_plate up plate \<notin> set (all_plates up s) \<and>
      normalize_license_plate up plate \<in>
        set (all_plates up (snd (assign_vehicle up s now vid plate price data)))) \<and>
   distinct (accepted_plates up (init n strategy) calls)"
  using well_formed_distinct_all_plates [OF well_formed_run [OF well_formed_init]]
    accepted_assign_fresh accepted_plates_fresh
  by blast

theorem one_entry_per_normalized_plate_witness:
  "fst (assign_vehicle ascii_upper single_tier_manager 1 ''V2'' ''cd 456 e'' (Finite 3600) None)
     \<noteq> None \<and>
   normalize_license_plate ascii_upper ''cd 456 e'' \<notin> set (all_plates ascii_upper single_tier_manager) \<and>
   normalize_license_plate ascii_upper ''cd 456 e'' \<in>
     set (all_plates ascii_upper
       (snd (assign_vehicle ascii_upper single_tier_manager 1 ''V2'' ''cd 456 e'' (Finite 3600) None)))"
proof -
  have acc: "fst (assign_vehicle ascii_upper single_tier_manager 1 ''V2'' ''cd 456 e''
      (Finite 3600) None) \<noteq> None"
    by code_simp
  show ?thesis
    using one_entry_per_normalized_plate
      [where up = ascii_upper and s = single_tier_manager and now = 1 and vid = "''V2''"
         and plate = "''cd 456 e''" and price = "Finite 3600" and data = None] acc
    by blast
qed

text \<open>
  Once the entry of an accepted call has been released, a second call with the same plate is
  accepted: assign \<^verbatim>\<open>A\<close>, release \<^verbatim>\<open>a\<close>, assign \<^verbatim>\<open>A\<close> again.
\<close>

theorem accepted_again_after_release_counterexample:
  "fst (assign_vehicle ascii_upper (init 2 None) 0 ''V1'' ''A'' (Finite 100) None) = Some 0 \<and>
   fst (release_by_license_plate ascii_upper
          (snd (assign_vehicle ascii_upper (init 2 None) 0 ''V1'' ''A'' (Finite 100) None)) ''a'') \<and>
   fst (assign_vehicle ascii_upper
          (snd (release_by_license_plate ascii_upper
                  (snd (assign_vehicle ascii_upper (init 2 None) 0 ''V1'' ''A'' (Finite 100) None))
                  ''a''))
          1 ''V2'' ''A'' (Finite 100) None) = Some 0"
  by code_simp

text \<open>
  Claim C8, as amended. From a well-formed state whose handover pool is empty and has its ten
  entries, eleven consecutive \<open>mark_vehicle_as_sold\<close> calls on plates that are present in
  the slot table and pairwise distinct after normalisation, with no
  \<open>complete_vehicle_handover\<close> between them, succeed ten times and fail the eleventh
  time, when no pool index is free. In every state, \<open>mark_vehicle_as_sold\<close> on a plate
  that is present in the slot table succeeds exactly when some pool index is free; a
  successful \<open>mark_vehicle_as_sold\<close> occupies one free pool index, a successful
  \<open>complete_vehicle_handover\<close> frees one, and an unsuccessful
  \<open>complete_vehicle_handover\<close> leaves the manager unchanged.
\<close>

theorem handover_pool_capacity:
  "(well_formed up s \<and> sold_vehicles s = replicate SOLD_VEHICLE_SLOTS None \<and>
    length calls = 11 \<and>
    distinct (map (\<lambda>c. normalize_license_plate up (fst (snd c))) calls) \<and>
    (\<forall>c \<in> set calls. get_vehicle_by_license_plate up s (fst (snd c)) \<noteq> None) \<longrightarrow>
      fst (mark_all up s calls) = replicate 10 True @ [False] \<and>
      None \<notin> set (sold_vehicles (snd (mark_all up s calls)))) \<and>
   (get_vehicle_by_license_plate up t plate \<noteq> None \<longrightarrow>
      (fst (mark_vehicle_as_sold up t now plate price_sold buyer) \<longleftrightarrow>
         None \<in> set (sold_vehicles t))) \<and>
   (fst (mark_vehicle_as_sold up t now plate price_sold buyer) \<longrightarrow>
      free_pool_slots (snd (mark_vehicle_as_sold up t now plate price_sold buyer)) + 1 =
        free_pool_slots t) \<and>
   (fst (complete_vehicle_handover up t plate') \<longrightarrow>
      free_pool_slots (snd (complete_vehicle_handover up t plate')) = free_pool_slots t + 1) \<and>
   (\<not> fst (complete_vehicle_handover up t plate') \<longrightarrow>
      snd (complete_vehicle_handover up t plate') = t)"
  using eleven_sales_fill_pool [of up s calls]
    mark_vehicle_as_sold_succeeds_iff [of up t plate now price_sold buyer]
    mark_vehicle_as_sold_takes_one [of up t now plate price_sold buyer]
    complete_vehicle_handover_frees_one [of up t plate']
    complete_vehicle_handover_failed [of up t plate']
  by blast

theorem handover_pool_capacity_witness:
  "fst (mark_all ascii_upper eleven_vehicles_manager (ten_sales @ [(1, ''K'', None, None)])) =
     replicate 10 True @ [False] \<and>
   get_vehicle_by_license_plate ascii_upper eleven_vehicles_manager ''K'' \<noteq> None \<and>
   fst (mark_vehicle_as_sold ascii_upper eleven_vehicles_manager 2 ''K'' None None) \<and>
   free_pool_slots (snd (mark_vehicle_as_sold ascii_upper eleven_vehicles_manager 2 ''K'' None None))
     + 1 = free_pool_slots eleven_vehicles_manager \<and>
   fst (complete_vehicle_handover ascii_upper handover_example_manager ''ab 123 c'') \<and>
   free_pool_slots (snd (complete_vehicle_handover ascii_upper handover_example_manager ''ab 123 c''))
     = free_pool_slots handover_example_manager + 1 \<and>
   \<not> fst (complete_vehicle_handover ascii_upper handover_example_manager ''CD-456-E'') \<and>
   snd (complete_vehicle_handover ascii_upper handover_example_manager ''CD-456-E'') =
     handover_example_manager"
proof -
  let ?calls = "ten_sales @ [(1, ''K'', None, None)]"
  have wf: "well_formed ascii_upper eleven_vehicles_manager"
    unfolding eleven_vehicles_manager_def by (rule well_formed_run [OF well_formed_init])
  have pool: "sold_vehicles eleven_vehicles_manager = replicate SOLD_VEHICLE_SLOTS None"
    by code_simp
  have len: "length ?calls = 11" by (simp add: ten_sales_def)
  have dist: "distinct (map (\<lambda>c. normalize_license_plate ascii_upper (fst (snd c))) ?calls)"
    by code_simp
  have look: "\<forall>c \<in> set ?calls.
      get_vehicle_by_license_plate ascii_upper eleven_vehicles_manager (fst (snd c)) \<noteq> None"
    by code_simp
  have k: "get_vehicle_by_license_plate ascii_upper eleven_vehicles_manager ''K'' \<noteq> None"
    by code_simp
  have free: "None \<in> set (sold_vehicles eleven_vehicles_manager)"
    by (simp add: pool SOLD_VEHICLE_SLOTS_def)
  have c1: "fst (complete_vehicle_handover ascii_upper handover_example_manager ''ab 123 c'')"
    by code_simp
  have c2: "\<not> fst (complete_vehicle_handover ascii_upper handover_example_manager ''CD-456-E'')"
    by code_simp
  show ?thesis
    using handover_pool_capacity
        [where up = ascii_upper and s = eleven_vehicles_manager and calls = ?calls
           and t = eleven_vehicles_manager and plate = "''K''" and now = 2
           and price_sold = None and buyer = None]
      handover_pool_capacity
        [where up = ascii_upper and t = handover_example_manager and plate' = "''ab 123 c''"]
      handover_pool_capacity
        [where up = ascii_upper and t = handover_example_manager and plate' = "''CD-456-E''"]
      wf pool len dist look k free c1 c2
    by blast
qed

text \<open>
  With a completion between the tenth and the eleventh sale the eleventh sale succeeds: the
  completion frees a pool index. Eleven vehicles are in the table and the pool is empty; the
  first ten are sold, the handover of the first is completed, and the eleventh is sold.
\<close>

theorem completion_restores_pool_capacity_counterexample:
  "sold_vehicles eleven_vehicles_manager = replicate 10 None \<and>
   get_vehicle_by_license_plate ascii_upper eleven_vehicles_manager ''K'' \<noteq> None \<and>
   fst (mark_all ascii_upper eleven_vehicles_manager ten_sales) = replicate 10 True \<and>
   fst (complete_vehicle_handover ascii_upper (snd (mark_all ascii_upper eleven_vehicles_manager ten_sales)) ''A'') \<and>
   fst (mark_vehicle_as_sold ascii_upper
          (snd (complete_vehicle_handover ascii_upper (snd (mark_all ascii_upper eleven_vehicles_manager ten_sales)) ''A''))
          2 ''K'' None None)"
  by code_simp

end
